theory Spec2Isabelle
  imports Complex_Main "HOL-Library.Word" "HOL-Library.Multiset" "HOL-Library.Monad_Syntax"
begin

section \<open>Strings of the host language\<close>

text \<open>
  A string of the component is a sequence of 16-bit code units. Literals of the source
  are written through \<open>str\<close>, which maps an ASCII literal to its code units.
\<close>

type_synonym jschar = "16 word"
type_synonym jsstring = "jschar list"

definition str :: "string \<Rightarrow> jsstring" where
  "str s = map (\<lambda>c. of_nat (of_char c)) s"

text \<open>
  White space as \<open>String.prototype.trim\<close> and the pattern class \<open>\s\<close> define it:
  TAB, LF, VT, FF, CR, SPACE, NBSP, U+1680, U+2000..U+200A, U+2028, U+2029, U+202F,
  U+205F, U+3000 and U+FEFF.
\<close>

definition isWhiteSpace :: "jschar \<Rightarrow> bool" where
  "isWhiteSpace c \<longleftrightarrow>
     c \<in> set [0x0009, 0x000A, 0x000B, 0x000C, 0x000D, 0x0020, 0x00A0, 0x1680,
               0x2000, 0x2001, 0x2002, 0x2003, 0x2004, 0x2005, 0x2006, 0x2007,
               0x2008, 0x2009, 0x200A, 0x2028, 0x2029, 0x202F, 0x205F, 0x3000, 0xFEFF]"

definition trim :: "jsstring \<Rightarrow> jsstring" where
  "trim s = rev (dropWhile isWhiteSpace (rev (dropWhile isWhiteSpace s)))"

definition startsWith :: "jsstring \<Rightarrow> jsstring \<Rightarrow> bool" where
  "startsWith s p \<longleftrightarrow> take (length p) s = p"

fun includes_str :: "jsstring \<Rightarrow> jsstring \<Rightarrow> bool" where
  "includes_str [] p = (p = [])"
| "includes_str (c # cs) p = (startsWith (c # cs) p \<or> includes_str cs p)"

text \<open>
  \<open>toLowerCase\<close>, as far as the component observes it: the result is only ever searched
  for an ASCII literal. The code units whose lower case contains an ASCII letter are
  \<open>A\<close>..\<open>Z\<close>, U+0130 (which becomes \<open>i\<close> followed by U+0307) and U+212A (which becomes
  \<open>k\<close>); every other unit maps to units outside ASCII and is left as it is here.
\<close>

definition lowerUnit :: "jschar \<Rightarrow> jsstring" where
  "lowerUnit c =
     (if 0x41 \<le> c \<and> c \<le> 0x5A then [c + 0x20]
      else if c = 0x130 then [0x69, 0x307]
      else if c = 0x212A then [0x6B]
      else [c])"

definition toLowerCase :: "jsstring \<Rightarrow> jsstring" where
  "toLowerCase s = concat (map lowerUnit s)"

text \<open>\<open>s.split('\n')\<close>: never empty; the empty string gives one empty line.\<close>

fun split_lines :: "jsstring \<Rightarrow> jsstring list" where
  "split_lines [] = [[]]"
| "split_lines (c # cs) =
     (if c = 0x0A then [] # split_lines cs
      else (case split_lines cs of
              [] \<Rightarrow> [[c]]
            | l # ls \<Rightarrow> (c # l) # ls))"

section \<open>Voices and the state of the component\<close>

record voice =
  voiceURI :: jsstring
  name :: jsstring
  lang :: jsstring

text \<open>
  The status line \<open>errorMessage\<close> holds one of the literals of the source, or the
  template \<open>SynthError e\<close> (the literal of \<open>readAloud\<close>'s \<open>onerror\<close> followed by the
  host's error code).
\<close>

datatype message =
    NoMessage               \<comment> \<open>the empty string\<close>
  | Unsupported             \<comment> \<open>populateVoiceList: no voice reported by the host\<close>
  | MissingInput            \<comment> \<open>speak, readAloud: no text or no voice\<close>
  | CapturePrompt           \<comment> \<open>speak: asking the user to share the tab\<close>
  | CaptureDenied           \<comment> \<open>speak: the capture failed or was cancelled\<close>
  | Recording               \<comment> \<open>speak: reading and recording\<close>
  | NoVoiceSpeak            \<comment> \<open>speak: no voice for a line\<close>
  | SpeakFailed             \<comment> \<open>speak: onerror of an utterance\<close>
  | Downloaded              \<comment> \<open>speak: the file was downloaded\<close>
  | NoVoiceRead             \<comment> \<open>readAloud: no voice for a line\<close>
  | SynthError jsstring     \<comment> \<open>readAloud: onerror of an utterance, with the error code\<close>

text \<open>
  The reactive variables of the component. A voice selection is \<open>None\<close> for \<open>null\<close>
  and for \<open>undefined\<close>: neither is ever equal to the \<open>voiceURI\<close> of a voice.
\<close>

record app_state =
  text_value :: jsstring
  voices :: "voice list"
  speaker1VoiceURI :: "jsstring option"
  speaker2VoiceURI :: "jsstring option"
  errorMessage :: message
  currentLineIndex :: "nat option"

section \<open>populateVoiceList\<close>

text \<open>\<open>a || b\<close> on values that are a string or \<open>undefined\<close>: the empty string is falsy.\<close>

definition truthy :: "jsstring option \<Rightarrow> bool" where
  "truthy a \<longleftrightarrow> (case a of None \<Rightarrow> False | Some s \<Rightarrow> s \<noteq> [])"

definition js_or :: "jsstring option \<Rightarrow> jsstring option \<Rightarrow> jsstring option" where
  "js_or a b = (if truthy a then a else b)"

text \<open>\<open>voices.find(p)?.voiceURI\<close> and \<open>voices[0]?.voiceURI\<close>.\<close>

definition findURI :: "(voice \<Rightarrow> bool) \<Rightarrow> voice list \<Rightarrow> jsstring option" where
  "findURI p vs = map_option voiceURI (find p vs)"

definition firstURI :: "voice list \<Rightarrow> jsstring option" where
  "firstURI vs = (case vs of [] \<Rightarrow> None | v # _ \<Rightarrow> Some (voiceURI v))"

definition zhJaRule :: "jsstring \<Rightarrow> bool" where
  "zhJaRule l \<longleftrightarrow>
     (startsWith l (str ''zh'') \<and> l \<noteq> str ''zh-HK'') \<or> startsWith l (str ''ja'')"

definition chromeKeep :: "voice \<Rightarrow> bool" where
  "chromeKeep v \<longleftrightarrow>
     includes_str (toLowerCase (name v)) (str ''google'') \<and>
     (zhJaRule (lang v) \<or> startsWith (lang v) (str ''en''))"

definition edgeKeep :: "voice \<Rightarrow> bool" where
  "edgeKeep v \<longleftrightarrow>
     includes_str (toLowerCase (name v)) (str ''microsoft'') \<and>
     (zhJaRule (lang v) \<or>
      (lang v = str ''en-US'' \<or> lang v = str ''en-GB'' \<or> lang v = str ''en-AU'' \<or>
       lang v = str ''en-CA'' \<or> lang v = str ''en-NZ''))"

definition genericKeep :: "voice \<Rightarrow> bool" where
  "genericKeep v \<longleftrightarrow> zhJaRule (lang v) \<or> startsWith (lang v) (str ''en'')"

definition langOrder :: "jsstring \<Rightarrow> int" where
  "langOrder l =
     (if startsWith l (str ''zh'') then 0
      else if l = str ''en-US'' then 1
      else if l = str ''en-AU'' then 2
      else if l = str ''en-CA'' then 3
      else if l = str ''en-NZ'' then 4
      else if l = str ''en-GB'' then 5
      else if startsWith l (str ''en'') then 6
      else if startsWith l (str ''ja'') then 7
      else 8)"

definition compareVoices :: "voice \<Rightarrow> voice \<Rightarrow> int" where
  "compareVoices a b = langOrder (lang a) - langOrder (lang b)"

text \<open>
  \<open>Array.prototype.sort\<close> with a comparator: a stable sort. It is modelled as the
  insertion sort that puts an element in front of the first element it does not
  compare greater than.
\<close>

fun insertBy :: "('a \<Rightarrow> 'a \<Rightarrow> int) \<Rightarrow> 'a \<Rightarrow> 'a list \<Rightarrow> 'a list" where
  "insertBy cmp x [] = [x]"
| "insertBy cmp x (y # ys) =
     (if cmp x y \<le> 0 then x # y # ys else y # insertBy cmp x ys)"

definition sortBy :: "('a \<Rightarrow> 'a \<Rightarrow> int) \<Rightarrow> 'a list \<Rightarrow> 'a list" where
  "sortBy cmp xs = foldr (insertBy cmp) xs []"

definition isEdge :: "jsstring \<Rightarrow> bool" where
  "isEdge userAgent \<longleftrightarrow> includes_str (toLowerCase userAgent) (str ''edg'')"

definition isChrome :: "jsstring \<Rightarrow> bool" where
  "isChrome userAgent \<longleftrightarrow>
     \<not> isEdge userAgent \<and> includes_str (toLowerCase userAgent) (str ''chrome'')"

definition hasEmma :: "voice \<Rightarrow> bool" where
  "hasEmma v \<longleftrightarrow> includes_str (toLowerCase (name v)) (str ''emma'')"

definition defaultSpeaker1 :: "voice list \<Rightarrow> jsstring option" where
  "defaultSpeaker1 vs =
     js_or (findURI hasEmma vs)
       (js_or (findURI (\<lambda>v. startsWith (lang v) (str ''en'')) vs) (firstURI vs))"

definition defaultSpeaker2TW :: "voice list \<Rightarrow> jsstring option" where
  "defaultSpeaker2TW vs =
     js_or (findURI (\<lambda>v. lang v = str ''zh-TW'') vs)
       (js_or (findURI (\<lambda>v. startsWith (lang v) (str ''zh'')) vs) (firstURI vs))"

definition defaultSpeaker2Yaoyao :: "voice list \<Rightarrow> jsstring option" where
  "defaultSpeaker2Yaoyao vs =
     js_or (findURI (\<lambda>v. includes_str (toLowerCase (name v)) (str ''yaoyao'')) vs)
       (js_or (findURI (\<lambda>v. startsWith (lang v) (str ''zh'')) vs) (firstURI vs))"

text \<open>
  \<open>populateVoiceList\<close>. The host supplies \<open>availableVoices\<close> (the result of
  \<open>synth.getVoices()\<close>) and \<open>userAgent\<close>.
\<close>

definition populateVoiceList :: "voice list \<Rightarrow> jsstring \<Rightarrow> app_state \<Rightarrow> app_state" where
  "populateVoiceList availableVoices userAgent st =
     (if voices st \<noteq> [] then st
      else if availableVoices \<noteq> [] then
        (if isChrome userAgent then
           (let vs = filter chromeKeep availableVoices
            in st\<lparr>voices := vs,
                  speaker1VoiceURI := defaultSpeaker1 vs,
                  speaker2VoiceURI := defaultSpeaker2TW vs\<rparr>)
         else if isEdge userAgent then
           (let msVoices = sortBy compareVoices (filter edgeKeep availableVoices)
            in st\<lparr>voices := msVoices,
                  speaker1VoiceURI := defaultSpeaker1 msVoices,
                  speaker2VoiceURI := defaultSpeaker2Yaoyao msVoices\<rparr>)
         else
           (let vs = filter genericKeep availableVoices
            in st\<lparr>voices := vs,
                  speaker1VoiceURI := defaultSpeaker1 vs,
                  speaker2VoiceURI := defaultSpeaker2TW vs\<rparr>))
      else st\<lparr>errorMessage := Unsupported\<rparr>)"

section \<open>The waveform encoder\<close>

text \<open>
  A number of the host language: a finite value, an infinity or NaN. The samples are
  32-bit floats and the constants are \<open>-1\<close>, \<open>1\<close>, \<open>0x8000\<close> and \<open>0x7FFF\<close>; a 24-bit
  significand times a 15-bit integer is exact in double precision, so the finite values
  are computed without rounding and are modelled as rationals.
\<close>

datatype jsnum = Finite rat | PosInf | NegInf | NaN

fun js_less :: "jsnum \<Rightarrow> jsnum \<Rightarrow> bool" where
  "js_less (Finite a) (Finite b) = (a < b)"
| "js_less (Finite a) PosInf = True"
| "js_less NegInf (Finite b) = True"
| "js_less NegInf PosInf = True"
| "js_less _ _ = False"

definition Math_min :: "jsnum \<Rightarrow> jsnum \<Rightarrow> jsnum" where
  "Math_min a b = (if a = NaN \<or> b = NaN then NaN else if js_less b a then b else a)"

definition Math_max :: "jsnum \<Rightarrow> jsnum \<Rightarrow> jsnum" where
  "Math_max a b = (if a = NaN \<or> b = NaN then NaN else if js_less a b then b else a)"

text \<open>\<open>s * c\<close> for a positive finite constant \<open>c\<close>.\<close>

fun js_times :: "jsnum \<Rightarrow> rat \<Rightarrow> jsnum" where
  "js_times (Finite r) c = Finite (r * c)"
| "js_times PosInf c = PosInf"
| "js_times NegInf c = NegInf"
| "js_times NaN c = NaN"

definition js_truncate :: "rat \<Rightarrow> int" where
  "js_truncate r = (if r < 0 then \<lceil>r\<rceil> else \<lfloor>r\<rfloor>)"

text \<open>
  The conversions of \<open>setInt16\<close>, \<open>setUint16\<close>, \<open>setUint32\<close> and \<open>setUint8\<close>: NaN and the
  infinities become 0, a finite value is truncated towards zero and reduced modulo
  the width.
\<close>

definition toInt16 :: "jsnum \<Rightarrow> 16 word" where
  "toInt16 x = (case x of Finite r \<Rightarrow> word_of_int (js_truncate r) | _ \<Rightarrow> 0)"

type_synonym byte = "8 word"

definition le16 :: "16 word \<Rightarrow> byte list" where
  "le16 w = [ucast w, ucast (drop_bit 8 w)]"

definition le32 :: "32 word \<Rightarrow> byte list" where
  "le32 w = [ucast w, ucast (drop_bit 8 w), ucast (drop_bit 16 w), ucast (drop_bit 24 w)]"

text \<open>A write into a buffer at an offset; \<open>None\<close> is the RangeError of a write out of range.\<close>

definition writeBytes :: "nat \<Rightarrow> byte list \<Rightarrow> byte list \<Rightarrow> byte list option" where
  "writeBytes off bs buf =
     (if off + length bs \<le> length buf
      then Some (take off buf @ bs @ drop (off + length bs) buf)
      else None)"

definition setInt16 :: "nat \<Rightarrow> jsnum \<Rightarrow> byte list \<Rightarrow> byte list option" where
  "setInt16 off x buf = writeBytes off (le16 (toInt16 x)) buf"

definition setUint16 :: "nat \<Rightarrow> nat \<Rightarrow> byte list \<Rightarrow> byte list option" where
  "setUint16 off n buf = writeBytes off (le16 (of_nat n)) buf"

definition setUint32 :: "nat \<Rightarrow> nat \<Rightarrow> byte list \<Rightarrow> byte list option" where
  "setUint32 off n buf = writeBytes off (le32 (of_nat n)) buf"

text \<open>The helper \<open>w\<close> of the source: the character codes of an ASCII literal, byte by byte.\<close>

definition w :: "nat \<Rightarrow> string \<Rightarrow> byte list \<Rightarrow> byte list option" where
  "w off s buf = writeBytes off (map (\<lambda>c. of_nat (of_char c)) s) buf"

text \<open>The conversion of one sample, as the inner loop of \<open>stop\<close> computes it.\<close>

definition pcmSample :: "jsnum \<Rightarrow> jsnum" where
  "pcmSample x =
     (let s = Math_max (Finite (-1)) (Math_min (Finite 1) x)
      in if js_less s (Finite 0) then js_times s 0x8000 else js_times s 0x7FFF)"

fun writeBlock :: "jsnum list \<Rightarrow> nat \<times> byte list \<Rightarrow> (nat \<times> byte list) option" where
  "writeBlock [] (offset, pcm16) = Some (offset, pcm16)"
| "writeBlock (x # xs) (offset, pcm16) =
     setInt16 offset (pcmSample x) pcm16 \<bind> (\<lambda>b. writeBlock xs (offset + 2, b))"

fun writeBlocks :: "jsnum list list \<Rightarrow> nat \<times> byte list \<Rightarrow> (nat \<times> byte list) option" where
  "writeBlocks [] s = Some s"
| "writeBlocks (f32 # rest) s = writeBlock f32 s \<bind> writeBlocks rest"

text \<open>
  \<open>stop\<close> of the recorder, on the blocks pushed so far and the sample rate of the audio
  context: the bytes of the blob it returns.
\<close>

definition stop :: "jsnum list list \<Rightarrow> nat \<Rightarrow> byte list option" where
  "stop samples sampleRate =
     (let len = foldl (\<lambda>sum a. sum + length a) 0 samples
      in writeBlocks samples (0, replicate (len * 2) 0) \<bind> (\<lambda>(offset, pcm16).
           Some (replicate (44 + length pcm16) 0)
             \<bind> w 0 ''RIFF''
             \<bind> setUint32 4 (36 + length pcm16)
             \<bind> w 8 ''WAVE''
             \<bind> w 12 ''fmt ''
             \<bind> setUint32 16 16
             \<bind> setUint16 20 1
             \<bind> setUint16 22 1
             \<bind> setUint32 24 sampleRate
             \<bind> setUint32 28 (sampleRate * 2)
             \<bind> setUint16 32 2
             \<bind> setUint16 34 16
             \<bind> w 36 ''data''
             \<bind> setUint32 40 (length pcm16)
             \<bind> writeBytes 44 pcm16))"

text \<open>Reading a header field back, little-endian.\<close>

definition readUint16 :: "nat \<Rightarrow> byte list \<Rightarrow> nat" where
  "readUint16 off buf = unat (buf ! off) + 256 * unat (buf ! (off + 1))"

definition readUint32 :: "nat \<Rightarrow> byte list \<Rightarrow> nat" where
  "readUint32 off buf =
     unat (buf ! off) + 256 * unat (buf ! (off + 1)) +
     65536 * unat (buf ! (off + 2)) + 16777216 * unat (buf ! (off + 3))"

definition readInt16 :: "nat \<Rightarrow> byte list \<Rightarrow> int" where
  "readInt16 off buf =
     (let u = int (readUint16 off buf) in if u < 32768 then u else u - 65536)"

section \<open>The dispatch of lines\<close>

text \<open>
  What the host answers is an input of the model: for the utterance submitted at loop
  index \<open>i\<close>, the signals it delivers in order (\<open>onend\<close>, or \<open>onerror\<close> with its error
  code); for the capture request, a grant with what the tap has recorded by the time
  \<open>stop\<close> is called, a refusal, or no answer at all.
\<close>

datatype signal = End | Error jsstring

record capture =
  samples :: "jsnum list list"
  sampleRate :: nat

datatype grant = Granted capture | Denied | NoAnswer

text \<open>
  The calls to the host and the assignments to the current-line indicator, in the order
  in which a run makes them.
\<close>

datatype event =
    SynthCancel
  | SynthSpeak jsstring voice
  | CurrentLine "nat option"
  | GetDisplayMedia
  | RecorderStop
  | Download "byte list"

text \<open>
  How a run of an asynchronous function ends: it runs to its last statement, it leaves
  by a \<open>return\<close>, it stays suspended at an \<open>await\<close> that is never resolved, or it is
  rejected.
\<close>

datatype flow = Finished | Returned | Suspended | Rejected

text \<open>\<open>line.replace(/^prefix\s*/, '')\<close>.\<close>

definition replacePrefix :: "jsstring \<Rightarrow> jsstring \<Rightarrow> jsstring" where
  "replacePrefix p line =
     (if startsWith line p then dropWhile isWhiteSpace (drop (length p) line) else line)"

definition findVoice :: "app_state \<Rightarrow> jsstring option \<Rightarrow> voice option" where
  "findVoice st uri = find (\<lambda>v. Some (voiceURI v) = uri) (voices st)"

text \<open>The voice and the utterance text of a line, as both loops compute them.\<close>

definition lineVoice :: "app_state \<Rightarrow> jsstring \<Rightarrow> voice option" where
  "lineVoice st line =
     (if startsWith line (str ''Speaker 1:'') then findVoice st (speaker1VoiceURI st)
      else if startsWith line (str ''Speaker 2:'') then findVoice st (speaker2VoiceURI st)
      else findVoice st (speaker1VoiceURI st))"

definition utterText :: "jsstring \<Rightarrow> jsstring" where
  "utterText line =
     (if startsWith line (str ''Speaker 1:'') then replacePrefix (str ''Speaker 1:'') line
      else if startsWith line (str ''Speaker 2:'') then replacePrefix (str ''Speaker 2:'') line
      else line)"

definition planLines :: "jsstring \<Rightarrow> jsstring list" where
  "planLines t = filter (\<lambda>l. trim l \<noteq> []) (split_lines t)"

text \<open>
  The wait of \<open>readAloud\<close> for one utterance. \<open>onerror\<close> writes the status line and
  nothing else, and it stays installed for as long as the utterance signals: an error
  after the end still writes the status line. \<open>onend\<close> resolves the promise. The
  signals of one utterance are taken in the order of the list, all of them before
  those of the next utterance. The result says whether the promise was resolved.
\<close>

fun awaitEnd :: "signal list \<Rightarrow> app_state \<Rightarrow> bool \<times> app_state" where
  "awaitEnd [] st = (False, st)"
| "awaitEnd (End # ss) st = (True, snd (awaitEnd ss st))"
| "awaitEnd (Error e # ss) st = awaitEnd ss (st\<lparr>errorMessage := SynthError e\<rparr>)"

fun readAloudLoop ::
  "(nat \<Rightarrow> signal list) \<Rightarrow> nat \<Rightarrow> jsstring list \<Rightarrow> app_state \<Rightarrow> flow \<times> app_state \<times> event list"
where
  "readAloudLoop host i [] st = (Finished, st, [])"
| "readAloudLoop host i (line # rest) st =
     (case lineVoice st line of
        None \<Rightarrow>
          (Returned, st\<lparr>errorMessage := NoVoiceRead, currentLineIndex := None\<rparr>,
           [CurrentLine None])
      | Some v \<Rightarrow>
          (let st1 = st\<lparr>currentLineIndex := Some i\<rparr>;
               evs = [CurrentLine (Some i), SynthSpeak (utterText line) v];
               (resolved, st2) = awaitEnd (host i) st1
           in if resolved
              then (let (f, st3, tr) = readAloudLoop host (Suc i) rest st2
                    in (f, st3, evs @ tr))
              else (Suspended, st2, evs)))"

text \<open>
  \<open>readAloud\<close>. \<open>speaking\<close> is \<open>synth.speaking\<close> at the call; \<open>host i\<close> is the answer to the
  utterance of loop index \<open>i\<close>. The state is not changed from outside during the run.
\<close>

definition cancelIfSpeaking :: "bool \<Rightarrow> event list" where
  "cancelIfSpeaking speaking = (if speaking then [SynthCancel] else [])"

definition readAloud ::
  "bool \<Rightarrow> (nat \<Rightarrow> signal list) \<Rightarrow> app_state \<Rightarrow> flow \<times> app_state \<times> event list"
where
  "readAloud speaking host st =
     (if text_value st \<noteq> [] \<and> voices st \<noteq> [] then
        (let st1 = st\<lparr>errorMessage := NoMessage\<rparr>;
             (f, st2, tr) = readAloudLoop host 0 (planLines (text_value st)) st1
         in if f = Finished
            then (Finished, st2\<lparr>currentLineIndex := None\<rparr>,
                  cancelIfSpeaking speaking @ tr @ [CurrentLine None])
            else (f, st2, cancelIfSpeaking speaking @ tr))
      else (Finished, st\<lparr>errorMessage := MissingInput\<rparr>, cancelIfSpeaking speaking))"

text \<open>
  The wait of \<open>speak\<close> for one utterance: the first signal settles the promise, \<open>onend\<close>
  resolves it, \<open>onerror\<close> writes the status line and rejects it.
\<close>

fun speakLoop ::
  "(nat \<Rightarrow> signal list) \<Rightarrow> nat \<Rightarrow> jsstring list \<Rightarrow> app_state \<Rightarrow> flow \<times> app_state \<times> event list"
where
  "speakLoop host i [] st = (Finished, st, [])"
| "speakLoop host i (raw # rest) st =
     (case lineVoice st raw of
        None \<Rightarrow> (Returned, st\<lparr>errorMessage := NoVoiceSpeak\<rparr>, [])
      | Some v \<Rightarrow>
          (case host i of
             [] \<Rightarrow> (Suspended, st, [SynthSpeak (utterText raw) v])
           | End # ss \<Rightarrow>
               (let (f, st1, tr) = speakLoop host (Suc i) rest st
                in (f, st1, SynthSpeak (utterText raw) v # tr))
           | Error e # ss \<Rightarrow>
               (Rejected, st\<lparr>errorMessage := SpeakFailed\<rparr>, [SynthSpeak (utterText raw) v])))"

text \<open>
  \<open>speak\<close>. \<open>g\<close> is the answer to the capture request of \<open>startWavRecorder\<close>. A \<open>stop\<close>
  that fails with a RangeError rejects the run after the recorder was stopped.
\<close>

definition speak ::
  "bool \<Rightarrow> grant \<Rightarrow> (nat \<Rightarrow> signal list) \<Rightarrow> app_state \<Rightarrow> flow \<times> app_state \<times> event list"
where
  "speak speaking g host st =
     (if text_value st = [] \<or> voices st = [] then
        (Returned, st\<lparr>errorMessage := MissingInput\<rparr>, cancelIfSpeaking speaking)
      else
        (let st1 = st\<lparr>errorMessage := CapturePrompt\<rparr>;
             tr0 = cancelIfSpeaking speaking @ [GetDisplayMedia]
         in case g of
              NoAnswer \<Rightarrow> (Suspended, st1, tr0)
            | Denied \<Rightarrow> (Returned, st1\<lparr>errorMessage := CaptureDenied\<rparr>, tr0)
            | Granted recorder \<Rightarrow>
                (let st2 = st1\<lparr>errorMessage := Recording\<rparr>;
                     (f, st3, tr) = speakLoop host 0 (planLines (text_value st)) st2
                 in if f = Finished
                    then (case stop (samples recorder) (sampleRate recorder) of
                            None \<Rightarrow> (Rejected, st3, tr0 @ tr @ [RecorderStop])
                          | Some wavBlob \<Rightarrow>
                              (Finished, st3\<lparr>errorMessage := Downloaded\<rparr>,
                               tr0 @ tr @ [RecorderStop, Download wavBlob]))
                    else (f, st3, tr0 @ tr))))"


section \<open>Reference notions for the statements\<close>

text \<open>The bytes of an ASCII tag, the two bytes of one sample and the PCM data of a recording.\<close>

definition ascii :: "string \<Rightarrow> byte list" where
  "ascii s = map (\<lambda>c. of_nat (of_char c)) s"

definition sampleBytes :: "jsnum \<Rightarrow> byte list" where
  "sampleBytes x = le16 (toInt16 (pcmSample x))"

definition pcmBytes :: "jsnum list list \<Rightarrow> byte list" where
  "pcmBytes blocks = concat (map sampleBytes (concat blocks))"

text \<open>The 44 bytes in front of \<open>n\<close> bytes of data at sample rate \<open>rate\<close>.\<close>

definition wavHeader :: "nat \<Rightarrow> nat \<Rightarrow> byte list" where
  "wavHeader n rate =
     ascii ''RIFF'' @ le32 (of_nat (36 + n)) @ ascii ''WAVE'' @ ascii ''fmt '' @
     le32 16 @ le16 1 @ le16 1 @ le32 (of_nat rate) @ le32 (of_nat (rate * 2)) @
     le16 2 @ le16 16 @ ascii ''data'' @ le32 (of_nat n)"

text \<open>A buffer whose first bytes are written and whose last \<open>m\<close> bytes are still zero.\<close>

definition filled :: "byte list \<Rightarrow> nat \<Rightarrow> byte list" where
  "filled pre m = pre @ replicate m 0"

text \<open>Clamping to \<open>[-1, 1]\<close>, then scaling by 32768 below zero and by 32767 from zero on.\<close>

definition clampScale :: "rat \<Rightarrow> rat" where
  "clampScale x = (let c = max (- 1) (min 1 x) in if c < 0 then c * 32768 else c * 32767)"

text \<open>The utterances of a trace, in the order of their submission.\<close>

fun spoken :: "event list \<Rightarrow> (jsstring \<times> voice) list" where
  "spoken [] = []"
| "spoken (SynthSpeak t v # es) = (t, v) # spoken es"
| "spoken (e # es) = spoken es"

text \<open>The filter of the branch that \<open>populateVoiceList\<close> takes for a user agent.\<close>

definition branchKeep :: "jsstring \<Rightarrow> voice \<Rightarrow> bool" where
  "branchKeep userAgent =
     (if isChrome userAgent then chromeKeep
      else if isEdge userAgent then edgeKeep
      else genericKeep)"

text \<open>
  The filter and the rank of the Edge branch as the specification words them: the name
  contains \<open>microsoft\<close> whatever the case, and the language starts with \<open>zh\<close> without
  being \<open>zh-HK\<close>, or starts with \<open>ja\<close>, or is one of five English tags; the ranks run
  from 0 for a language starting with \<open>zh\<close> to 8 for anything unlisted.
\<close>

definition claimedEdgeKeep :: "voice \<Rightarrow> bool" where
  "claimedEdgeKeep v \<longleftrightarrow>
     includes_str (toLowerCase (name v)) (str ''microsoft'') \<and>
     ((startsWith (lang v) (str ''zh'') \<and> lang v \<noteq> str ''zh-HK'') \<or>
      startsWith (lang v) (str ''ja'') \<or>
      lang v \<in> set (map str [''en-US'', ''en-GB'', ''en-AU'', ''en-CA'', ''en-NZ'']))"

definition claimedRank :: "jsstring \<Rightarrow> nat" where
  "claimedRank l =
     (if startsWith l (str ''zh'') then 0
      else if l = str ''en-US'' then 1
      else if l = str ''en-AU'' then 2
      else if l = str ''en-CA'' then 3
      else if l = str ''en-NZ'' then 4
      else if l = str ''en-GB'' then 5
      else if startsWith l (str ''en'') then 6
      else if startsWith l (str ''ja'') then 7
      else 8)"

text \<open>Concrete voices and a concrete state, for the instances below.\<close>

definition emmaVoice :: voice where
  "emmaVoice = \<lparr>voiceURI = str ''urn:emma'', name = str ''Microsoft Emma Online'', lang = str ''en-US''\<rparr>"

definition yaoyaoVoice :: voice where
  "yaoyaoVoice = \<lparr>voiceURI = str ''urn:yaoyao'', name = str ''Microsoft Yaoyao'', lang = str ''zh-CN''\<rparr>"

definition sonia :: voice where
  "sonia = \<lparr>voiceURI = str ''urn:sonia'', name = str ''Microsoft Sonia'', lang = str ''en-GB''\<rparr>"

definition hortense :: voice where
  "hortense = \<lparr>voiceURI = str ''urn:hortense'', name = str ''Microsoft Hortense'', lang = str ''fr-FR''\<rparr>"

definition initialState :: "jsstring \<Rightarrow> app_state" where
  "initialState t =
     \<lparr>text_value = t, voices = [], speaker1VoiceURI = None, speaker2VoiceURI = None,
      errorMessage = NoMessage, currentLineIndex = None\<rparr>"

definition readyState :: "jsstring \<Rightarrow> app_state" where
  "readyState t =
     \<lparr>text_value = t, voices = [yaoyaoVoice, emmaVoice],
      speaker1VoiceURI = Some (str ''urn:emma''), speaker2VoiceURI = Some (str ''urn:yaoyao''),
      errorMessage = NoMessage, currentLineIndex = None\<rparr>"

text \<open>
  What a run of \<open>readAloud\<close> is expected to do for the line at index \<open>i\<close>, what a run
  of \<open>speak\<close> is expected to do for a line, and the utterance of a line.
\<close>

definition lineEvents :: "app_state \<Rightarrow> nat \<times> jsstring \<Rightarrow> event list" where
  "lineEvents st p =
     (case lineVoice st (snd p) of
        None \<Rightarrow> []
      | Some v \<Rightarrow> [CurrentLine (Some (fst p)), SynthSpeak (utterText (snd p)) v])"

definition speakEvent :: "app_state \<Rightarrow> jsstring \<Rightarrow> event list" where
  "speakEvent st l = (case lineVoice st l of None \<Rightarrow> [] | Some v \<Rightarrow> [SynthSpeak (utterText l) v])"

definition lineUtterance :: "app_state \<Rightarrow> jsstring \<Rightarrow> (jsstring \<times> voice) list" where
  "lineUtterance st l = (case lineVoice st l of None \<Rightarrow> [] | Some v \<Rightarrow> [(utterText l, v)])"

text \<open>
  Hosts for the instances below: every utterance ends; no utterance signals anything;
  the first utterance ends and the others signal nothing; every utterance fails and
  never ends; the first utterance ends and the others fail.
\<close>

definition alwaysEnd :: "nat \<Rightarrow> signal list" where
  "alwaysEnd i = [End]"

definition silent :: "nat \<Rightarrow> signal list" where
  "silent i = []"

definition endThenSilent :: "nat \<Rightarrow> signal list" where
  "endThenSilent i = (if i = 0 then [End] else [])"

definition errorOnly :: "nat \<Rightarrow> signal list" where
  "errorOnly i = [Error (str ''synthesis-failed'')]"

definition endThenError :: "nat \<Rightarrow> signal list" where
  "endThenError i = (if i = 0 then [End] else [Error (str ''synthesis-failed'')])"

text \<open>A text, three user agents and a short recording, for the instances below.\<close>

definition dialogue :: jsstring where
  "dialogue = str ''Speaker 1: Hello\<newline>\<newline>Speaker 2:Ni hao\<newline>plain''"

definition edgeAgent :: jsstring where
  "edgeAgent = str ''Mozilla/5.0 Chrome/120.0 Safari/537.36 Edg/120.0''"

definition chromeAgent :: jsstring where
  "chromeAgent = str ''Mozilla/5.0 Chrome/120.0 Safari/537.36''"

definition firefoxAgent :: jsstring where
  "firefoxAgent = str ''Mozilla/5.0 Gecko/20100101 Firefox/121.0''"

definition shortCapture :: capture where
  "shortCapture = \<lparr>samples = [[Finite 1, Finite (- 1)], [Finite (1 / 2)]], sampleRate = 48000\<rparr>"

section \<open>The layout of the waveform file\<close>

lemma length_le16 [simp]: "length (le16 x) = 2"
  by (simp add: le16_def)
lemma length_le32 [simp]: "length (le32 x) = 4"
  by (simp add: le32_def)
lemma length_sampleBytes [simp]: "length (sampleBytes x) = 2"
  by (simp add: sampleBytes_def)
lemma length_ascii [simp]: "length (ascii s) = length s"
  by (simp add: ascii_def)

lemma length_concat_sampleBytes [simp]:
  "length (concat (map sampleBytes xs)) = 2 * length xs"
  by (induction xs) simp_all

lemma length_pcmBytes: "length (pcmBytes blocks) = 2 * length (concat blocks)"
  by (simp add: pcmBytes_def)

lemma writeBytes_filled:
  "off = length pre \<Longrightarrow> length bs \<le> m \<Longrightarrow>
   writeBytes off bs (filled pre m) = Some (filled (pre @ bs) (m - length bs))"
  by (simp add: writeBytes_def filled_def)

lemma writeBlock_filled:
  "off = length pre \<Longrightarrow> 2 * length xs \<le> m \<Longrightarrow>
   writeBlock xs (off, filled pre m)
     = Some (off + 2 * length xs, filled (pre @ concat (map sampleBytes xs)) (m - 2 * length xs))"
proof (induction xs arbitrary: off pre m)
  case Nil
  then show ?case by simp
next
  case (Cons x xs)
  have step: "setInt16 off (pcmSample x) (filled pre m) = Some (filled (pre @ sampleBytes x) (m - 2))"
    using Cons.prems by (simp add: setInt16_def writeBytes_filled sampleBytes_def)
  have "writeBlock xs (off + 2, filled (pre @ sampleBytes x) (m - 2))
        = Some (off + 2 + 2 * length xs,
                filled ((pre @ sampleBytes x) @ concat (map sampleBytes xs)) (m - 2 - 2 * length xs))"
    using Cons.prems by (intro Cons.IH) simp_all
  with step show ?case by simp
qed

lemma writeBlocks_filled:
  "off = length pre \<Longrightarrow> 2 * length (concat blocks) \<le> m \<Longrightarrow>
   writeBlocks blocks (off, filled pre m)
     = Some (off + 2 * length (concat blocks),
             filled (pre @ pcmBytes blocks) (m - 2 * length (concat blocks)))"
proof (induction blocks arbitrary: off pre m)
  case Nil
  then show ?case by (simp add: pcmBytes_def)
next
  case (Cons b blocks)
  have first: "writeBlock b (off, filled pre m)
        = Some (off + 2 * length b, filled (pre @ concat (map sampleBytes b)) (m - 2 * length b))"
    using Cons.prems by (intro writeBlock_filled) simp_all
  have "writeBlocks blocks (off + 2 * length b, filled (pre @ concat (map sampleBytes b)) (m - 2 * length b))
        = Some (off + 2 * length b + 2 * length (concat blocks),
                filled ((pre @ concat (map sampleBytes b)) @ pcmBytes blocks)
                  (m - 2 * length b - 2 * length (concat blocks)))"
    using Cons.prems by (intro Cons.IH) simp_all
  with first show ?case by (simp add: pcmBytes_def algebra_simps)
qed

lemma foldl_length: "foldl (\<lambda>sum a. sum + length a) k blocks = k + length (concat blocks)"
  by (induction blocks arbitrary: k) simp_all

lemma pcm16_written:
  "writeBlocks blocks (0, replicate (length (concat blocks) * 2) 0) = Some (2 * length (concat blocks), pcmBytes blocks)"
  using writeBlocks_filled [of 0 "[]" blocks "length (concat blocks) * 2"]
  by (simp add: filled_def)

lemma header_written:
  "Some (replicate (44 + length pcm) 0)
             \<bind> w 0 ''RIFF''
             \<bind> setUint32 4 (36 + length pcm)
             \<bind> w 8 ''WAVE''
             \<bind> w 12 ''fmt ''
             \<bind> setUint32 16 16
             \<bind> setUint16 20 1
             \<bind> setUint16 22 1
             \<bind> setUint32 24 rate
             \<bind> setUint32 28 (rate * 2)
             \<bind> setUint16 32 2
             \<bind> setUint16 34 16
             \<bind> w 36 ''data''
             \<bind> setUint32 40 (length pcm)
             \<bind> writeBytes 44 pcm = Some (wavHeader (length pcm) rate @ pcm)"
proof -
  have start: "replicate (44 + length pcm) 0 = filled [] (44 + length pcm)"
    by (simp add: filled_def)
  show ?thesis
    unfolding start w_def setUint32_def setUint16_def ascii_def [symmetric]
    by (simp add: writeBytes_filled wavHeader_def) (simp add: filled_def)
qed

lemma stop_eq:
  "stop blocks rate = Some (wavHeader (2 * length (concat blocks)) rate @ pcmBytes blocks)"
  unfolding stop_def Let_def foldl_length
  using header_written [of "pcmBytes blocks" rate]
  by (simp add: pcm16_written length_pcmBytes)


lemma unat_byte_low: "unat (ucast x :: byte) = unat x mod 256" for x :: "'a::len word"
  by (simp add: unsigned_ucast_eq take_bit_eq_mod)

lemma unat_drop: "unat (drop_bit n x) = unat x div 2 ^ n" for x :: "'a::len word"
  unfolding unat_drop_bit_eq by (rule drop_bit_eq_div)

lemma unat_bytes16:
  fixes x :: "16 word"
  shows "unat (ucast x :: byte) + 256 * unat (ucast (drop_bit 8 x) :: byte) = unat x"
proof -
  have b: "unat x < 65536"
    using unsigned_less [of x, where ?'a = nat] by simp
  have "unat x div 256 < 256" using b by simp
  then have "unat x mod 256 + 256 * (unat x div 256 mod 256) = unat x"
    by simp
  then show ?thesis
    by (simp add: unat_byte_low unat_drop)
qed

lemma unat_bytes32:
  fixes x :: "32 word"
  shows "unat (ucast x :: byte) + 256 * unat (ucast (drop_bit 8 x) :: byte) +
         65536 * unat (ucast (drop_bit 16 x) :: byte) +
         16777216 * unat (ucast (drop_bit 24 x) :: byte) = unat x"
proof -
  define n where "n = unat x"
  have b: "n < 4294967296"
    unfolding n_def using unsigned_less [of x, where ?'a = nat] by simp
  have d3: "n div 16777216 mod 256 = n div 16777216"
    using b by simp
  have d2: "n div 65536 = 256 * (n div 16777216) + n div 65536 mod 256"
    using div_mult2_eq [of n 65536 256] by simp
  have d1: "n div 256 = 256 * (n div 65536) + n div 256 mod 256"
    using div_mult2_eq [of n 256 256] by simp
  have d0: "n = 256 * (n div 256) + n mod 256"
    by simp
  have "n mod 256 + 256 * (n div 256 mod 256) +
        65536 * (n div 65536 mod 256) + 16777216 * (n div 16777216) = n"
    using d0 d1 d2 by linarith
  then show ?thesis
    using d3 by (simp add: unat_byte_low unat_drop n_def)
qed

lemma readUint32_le32:
  "off = length pre \<Longrightarrow> readUint32 off (pre @ le32 x @ post) = unat x"
  using unat_bytes32 [of x] by (simp add: readUint32_def le32_def nth_append)

lemma readUint16_le16:
  "off = length pre \<Longrightarrow> readUint16 off (pre @ le16 x @ post) = unat x"
  using unat_bytes16 [of x] by (simp add: readUint16_def le16_def nth_append)

lemma unat_of_nat32: "unat (of_nat k :: 32 word) = k mod 4294967296"
  by (simp add: unat_of_nat)

lemma header_fields:
  "readUint32 4 (wavHeader n rate @ pcm) = (36 + n) mod 2 ^ 32"
  "readUint32 16 (wavHeader n rate @ pcm) = 16"
  "readUint16 20 (wavHeader n rate @ pcm) = 1"
  "readUint16 22 (wavHeader n rate @ pcm) = 1"
  "readUint32 24 (wavHeader n rate @ pcm) = rate mod 2 ^ 32"
  "readUint32 28 (wavHeader n rate @ pcm) = (rate * 2) mod 2 ^ 32"
  "readUint16 32 (wavHeader n rate @ pcm) = 2"
  "readUint16 34 (wavHeader n rate @ pcm) = 16"
  "readUint32 40 (wavHeader n rate @ pcm) = n mod 2 ^ 32"
proof -
  let ?a = "ascii ''RIFF''" and ?b = "ascii ''WAVE''" and ?c = "ascii ''fmt ''" and ?d = "ascii ''data''"
  show "readUint32 4 (wavHeader n rate @ pcm) = (36 + n) mod 2 ^ 32"
    using readUint32_le32 [of 4 ?a "of_nat (36 + n)"] unat_of_nat32 [of "36 + n"]
    by (simp add: wavHeader_def)
  show "readUint32 16 (wavHeader n rate @ pcm) = 16"
    using readUint32_le32 [of 16 "?a @ le32 (of_nat (36 + n)) @ ?b @ ?c" 16]
    by (simp add: wavHeader_def)
  show "readUint16 20 (wavHeader n rate @ pcm) = 1"
    using readUint16_le16 [of 20 "?a @ le32 (of_nat (36 + n)) @ ?b @ ?c @ le32 16" 1]
    by (simp add: wavHeader_def)
  show "readUint16 22 (wavHeader n rate @ pcm) = 1"
    using readUint16_le16 [of 22 "?a @ le32 (of_nat (36 + n)) @ ?b @ ?c @ le32 16 @ le16 1" 1]
    by (simp add: wavHeader_def)
  show "readUint32 24 (wavHeader n rate @ pcm) = rate mod 2 ^ 32"
    using readUint32_le32 [of 24 "?a @ le32 (of_nat (36 + n)) @ ?b @ ?c @ le32 16 @ le16 1 @ le16 1" "of_nat rate"] unat_of_nat32 [of rate]
    by (simp add: wavHeader_def)
  show "readUint32 28 (wavHeader n rate @ pcm) = (rate * 2) mod 2 ^ 32"
    using readUint32_le32 [of 28 "?a @ le32 (of_nat (36 + n)) @ ?b @ ?c @ le32 16 @ le16 1 @ le16 1 @ le32 (of_nat rate)" "of_nat (rate * 2)"] unat_of_nat32 [of "rate * 2"]
    by (simp add: wavHeader_def)
  show "readUint16 32 (wavHeader n rate @ pcm) = 2"
    using readUint16_le16 [of 32 "?a @ le32 (of_nat (36 + n)) @ ?b @ ?c @ le32 16 @ le16 1 @ le16 1 @ le32 (of_nat rate) @ le32 (of_nat (rate * 2))" 2]
    by (simp add: wavHeader_def)
  show "readUint16 34 (wavHeader n rate @ pcm) = 16"
    using readUint16_le16 [of 34 "?a @ le32 (of_nat (36 + n)) @ ?b @ ?c @ le32 16 @ le16 1 @ le16 1 @ le32 (of_nat rate) @ le32 (of_nat (rate * 2)) @ le16 2" 16]
    by (simp add: wavHeader_def)
  show "readUint32 40 (wavHeader n rate @ pcm) = n mod 2 ^ 32"
    using readUint32_le32 [of 40 "?a @ le32 (of_nat (36 + n)) @ ?b @ ?c @ le32 16 @ le16 1 @ le16 1 @ le32 (of_nat rate) @ le32 (of_nat (rate * 2)) @ le16 2 @ le16 16 @ ?d" "of_nat n"] unat_of_nat32 [of n]
    by (simp add: wavHeader_def)
qed

lemma length_wavHeader [simp]: "length (wavHeader n rate) = 44"
  by (simp add: wavHeader_def)




text \<open>
  C2. For every list of sample blocks with \<open>N\<close> samples in all and every (integer)
  sample rate \<open>R\<close>, \<open>stop\<close> returns a buffer of exactly \<open>44 + 2N\<close> bytes: the tags
  \<open>RIFF\<close>, \<open>WAVE\<close>, \<open>fmt \<close> and \<open>data\<close>, the format chunk size 16, the PCM format
  code 1, one channel, block align 2 and 16 bits per sample, and, in the four 32-bit
  fields, the RIFF chunk size \<open>36 + 2N\<close>, the data chunk size \<open>2N\<close>, the sample rate
  \<open>R\<close> and the byte rate \<open>2R\<close>, each reduced modulo \<open>2^32\<close> (so each is the value itself
  whenever that is below \<open>2^32\<close>); the \<open>2N\<close> bytes of PCM16 data follow the header.
\<close>

theorem stop_wav_layout:
  "stop blocks rate = Some (wavHeader (2 * length (concat blocks)) rate @ pcmBytes blocks) \<and>
   map_option length (stop blocks rate) = Some (44 + 2 * length (concat blocks)) \<and>
   map_option (take 4) (stop blocks rate) = Some (ascii ''RIFF'') \<and>
   map_option (readUint32 4) (stop blocks rate)
     = Some ((36 + 2 * length (concat blocks)) mod 2 ^ 32) \<and>
   map_option (take 8 \<circ> drop 8) (stop blocks rate) = Some (ascii ''WAVEfmt '') \<and>
   map_option (readUint32 16) (stop blocks rate) = Some 16 \<and>
   map_option (readUint16 20) (stop blocks rate) = Some 1 \<and>
   map_option (readUint16 22) (stop blocks rate) = Some 1 \<and>
   map_option (readUint32 24) (stop blocks rate) = Some (rate mod 2 ^ 32) \<and>
   map_option (readUint32 28) (stop blocks rate) = Some ((2 * rate) mod 2 ^ 32) \<and>
   map_option (readUint16 32) (stop blocks rate) = Some 2 \<and>
   map_option (readUint16 34) (stop blocks rate) = Some 16 \<and>
   map_option (take 4 \<circ> drop 36) (stop blocks rate) = Some (ascii ''data'') \<and>
   map_option (readUint32 40) (stop blocks rate)
     = Some ((2 * length (concat blocks)) mod 2 ^ 32) \<and>
   map_option (drop 44) (stop blocks rate) = Some (pcmBytes blocks) \<and>
   length (pcmBytes blocks) = 2 * length (concat blocks)"
proof -
  let ?n = "2 * length (concat blocks)"
  have tags:
    "take 4 (wavHeader ?n rate @ pcmBytes blocks) = ascii ''RIFF''"
    "take 8 (drop 8 (wavHeader ?n rate @ pcmBytes blocks)) = ascii ''WAVEfmt ''"
    "take 4 (drop 36 (wavHeader ?n rate @ pcmBytes blocks)) = ascii ''data''"
    by (simp_all add: wavHeader_def ascii_def le32_def le16_def)
  have rate2: "rate * 2 = 2 * rate"
    by simp
  show ?thesis
    unfolding stop_eq option.map comp_def
    using tags header_fields [of ?n rate "pcmBytes blocks"]
    by (simp add: length_pcmBytes rate2)
qed

text \<open>
  The claim as it is written fails where a 32-bit field wraps around: a recording of
  2147483630 samples has \<open>36 + 2N = 2^32\<close>, and the RIFF chunk size field holds 0.
\<close>

theorem stop_riff_size_wraps:
  "length (concat [replicate 2147483630 (Finite 0)]) = 2147483630 \<and>
   map_option (readUint32 4) (stop [replicate 2147483630 (Finite 0)] 48000) = Some 0 \<and>
   map_option (readUint32 4) (stop [replicate 2147483630 (Finite 0)] 48000)
     \<noteq> Some (36 + 2 * 2147483630)"
proof -
  have n: "length (concat [replicate 2147483630 (Finite 0 :: jsnum)]) = 2147483630"
    by (simp only: concat.simps append_Nil2 length_replicate)
  have m: "(36 + 2 * 2147483630) mod 2 ^ 32 = (0 :: nat)"
    by simp
  have eq: "map_option (readUint32 4) (stop [replicate 2147483630 (Finite 0)] 48000) = Some 0"
    unfolding stop_eq option.map n by (simp only: header_fields m)
  show ?thesis
    unfolding eq n by simp
qed

section \<open>The conversion of a sample\<close>

lemma pcmSample_Finite: "pcmSample (Finite x) = Finite (clampScale x)"
  by (simp add: pcmSample_def clampScale_def Math_max_def Math_min_def Let_def max_def min_def)

lemma pcmSample_special:
  "pcmSample PosInf = Finite 32767" "pcmSample NegInf = Finite (- 32768)" "pcmSample NaN = NaN"
  by (simp_all add: pcmSample_def Math_max_def Math_min_def)

lemma js_truncate_bounds:
  assumes "of_int a \<le> r" "r \<le> of_int b"
  shows "a \<le> js_truncate r" "js_truncate r \<le> b"
proof -
  have lo: "a \<le> \<lfloor>r\<rfloor>" using assms(1) by (simp add: le_floor_iff)
  have mid: "\<lfloor>r\<rfloor> \<le> \<lceil>r\<rceil>" by (rule floor_le_ceiling)
  have hi: "\<lceil>r\<rceil> \<le> b" using assms(2) by (simp add: ceiling_le_iff)
  show "a \<le> js_truncate r"
  proof (cases "r < 0")
    case True
    then have "js_truncate r = \<lceil>r\<rceil>" by (simp add: js_truncate_def)
    with lo mid show ?thesis by linarith
  next
    case False
    then have "js_truncate r = \<lfloor>r\<rfloor>" by (simp add: js_truncate_def)
    with lo show ?thesis by linarith
  qed
  show "js_truncate r \<le> b"
  proof (cases "r < 0")
    case True
    then have "js_truncate r = \<lceil>r\<rceil>" by (simp add: js_truncate_def)
    with hi show ?thesis by linarith
  next
    case False
    then have "js_truncate r = \<lfloor>r\<rfloor>" by (simp add: js_truncate_def)
    with hi mid show ?thesis by linarith
  qed
qed

lemma clampScale_bounds:
  "- 32768 \<le> clampScale x" "clampScale x \<le> 32767"
  by (simp_all add: clampScale_def Let_def max_def min_def)

lemma sint_int16:
  "- 32768 \<le> k \<Longrightarrow> k \<le> 32767 \<Longrightarrow> sint (word_of_int k :: 16 word) = k"
  by (simp add: signed_of_int signed_take_bit_int_eq_self)

lemma sint_uint16:
  "sint x = (if uint x < 32768 then uint x else uint x - 65536)" for x :: "16 word"
proof -
  have b: "0 \<le> uint x" "uint x < 65536"
    using uint_lt2p [of x] by simp_all
  have s: "sint x = (uint x + 32768) mod 65536 - 32768"
    using sint_uint [of x] by (simp add: signed_take_bit_eq_take_bit_shift take_bit_eq_mod)
  show ?thesis
  proof (cases "uint x < 32768")
    case True
    then have "(uint x + 32768) mod 65536 = uint x + 32768"
      using b by (simp add: mod_pos_pos_trivial)
    with s True show ?thesis by simp
  next
    case False
    have "uint x + 32768 = uint x - 32768 + 65536"
      by simp
    then have "(uint x + 32768) mod 65536 = (uint x - 32768 + 65536) mod 65536"
      by (simp only:)
    also have "\<dots> = (uint x - 32768) mod 65536"
      by (simp only: mod_add_self2)
    also have "\<dots> = uint x - 32768"
      using b False by (simp add: mod_pos_pos_trivial)
    finally show ?thesis using s False by simp
  qed
qed

lemma readInt16_le16:
  "off = length pre \<Longrightarrow> readInt16 off (pre @ le16 x @ post) = sint x"
  by (simp add: readInt16_def readUint16_le16 sint_uint16 Let_def)

lemma sint_toInt16_Finite:
  "sint (toInt16 (pcmSample (Finite x))) = js_truncate (clampScale x)"
proof -
  have "- 32768 \<le> js_truncate (clampScale x)" "js_truncate (clampScale x) \<le> 32767"
    using js_truncate_bounds [of "- 32768" "clampScale x" 32767] clampScale_bounds [of x]
    by simp_all
  then show ?thesis
    by (simp add: pcmSample_Finite toInt16_def sint_int16)
qed

text \<open>
  C8. A finite sample \<open>x\<close> is clamped to \<open>[-1, 1]\<close>, scaled by 32768 if the clamped
  value is negative and by 32767 otherwise, and truncated towards zero; the integer is
  stored without wrap-around as a signed 16-bit value, low byte first. \<open>-1\<close> gives
  \<open>-32768\<close>, \<open>0\<close> gives 0 and \<open>1\<close> gives 32767; a value beyond \<open>\<plusminus>1\<close>, the infinities
  included, gives what \<open>\<plusminus>1\<close> gives. (NaN passes the clamp unchanged and is stored as 0.)
  The data of the file are these two bytes for each sample, in order.
\<close>

theorem pcm16_conversion:
  "sint (toInt16 (pcmSample (Finite x)))
     = js_truncate (let c = max (- 1) (min 1 x) in if c < 0 then c * 32768 else c * 32767) \<and>
   readInt16 0 (sampleBytes s) = sint (toInt16 (pcmSample s)) \<and>
   sint (toInt16 (pcmSample (Finite (- 1)))) = - 32768 \<and>
   sint (toInt16 (pcmSample (Finite 0))) = 0 \<and>
   sint (toInt16 (pcmSample (Finite 1))) = 32767 \<and>
   pcmSample (Finite (1 + \<bar>d\<bar>)) = pcmSample (Finite 1) \<and>
   pcmSample (Finite (- 1 - \<bar>d\<bar>)) = pcmSample (Finite (- 1)) \<and>
   pcmSample PosInf = pcmSample (Finite 1) \<and>
   pcmSample NegInf = pcmSample (Finite (- 1)) \<and>
   toInt16 (pcmSample NaN) = 0 \<and>
   map_option (drop 44) (stop blocks rate) = Some (concat (map sampleBytes (concat blocks)))"
proof -
  have a: "sint (toInt16 (pcmSample (Finite x)))
     = js_truncate (let c = max (- 1) (min 1 x) in if c < 0 then c * 32768 else c * 32767)"
    using sint_toInt16_Finite [of x] by (simp add: clampScale_def)
  have b: "readInt16 0 (sampleBytes s) = sint (toInt16 (pcmSample s))"
    using readInt16_le16 [of 0 "[]" "toInt16 (pcmSample s)" "[]"] by (simp add: sampleBytes_def)
  have c: "sint (toInt16 (pcmSample (Finite (- 1)))) = - 32768"
    "sint (toInt16 (pcmSample (Finite 0))) = 0"
    "sint (toInt16 (pcmSample (Finite 1))) = 32767"
    by (simp_all add: sint_toInt16_Finite clampScale_def js_truncate_def)
  have d: "pcmSample (Finite (1 + \<bar>d\<bar>)) = pcmSample (Finite 1)"
    "pcmSample (Finite (- 1 - \<bar>d\<bar>)) = pcmSample (Finite (- 1))"
    by (simp_all add: pcmSample_Finite clampScale_def Let_def max_def min_def)
  have e: "pcmSample PosInf = pcmSample (Finite 1)" "pcmSample NegInf = pcmSample (Finite (- 1))"
    "toInt16 (pcmSample NaN) = 0"
    by (simp_all add: pcmSample_special pcmSample_Finite clampScale_def toInt16_def)
  have f: "map_option (drop 44) (stop blocks rate) = Some (concat (map sampleBytes (concat blocks)))"
    by (simp add: stop_eq pcmBytes_def)
  from a b c d e f show ?thesis
    by (intro conjI)
qed

section \<open>The catalog of voices\<close>

lemma insertBy_compareVoices:
  "insertBy compareVoices x ys = insort_key (\<lambda>v. langOrder (lang v)) x ys"
  by (induction ys) (simp_all add: compareVoices_def)

lemma sortBy_compareVoices:
  "sortBy compareVoices xs = sort_key (\<lambda>v. langOrder (lang v)) xs"
  by (induction xs) (simp_all add: sortBy_def insertBy_compareVoices)

lemma isEdge_not_isChrome: "isEdge ua \<Longrightarrow> \<not> isChrome ua"
  by (simp add: isChrome_def)

lemma sort_key_Nil_iff: "sort_key f xs = [] \<longleftrightarrow> xs = []"
  using length_sort [of f xs] by (metis length_0_conv)

lemma populate_voices:
  "voices st = [] \<Longrightarrow> host \<noteq> [] \<Longrightarrow>
   voices (populateVoiceList host ua st)
     = (if isEdge ua then sort_key (\<lambda>v. langOrder (lang v)) (filter edgeKeep host)
        else filter (branchKeep ua) host) \<and>
   errorMessage (populateVoiceList host ua st) = errorMessage st"
  by (simp add: populateVoiceList_def branchKeep_def sortBy_compareVoices Let_def isEdge_not_isChrome)

lemma populate_twice: "populateVoiceList host ua (populateVoiceList host ua st) = populateVoiceList host ua st"
proof (cases "voices (populateVoiceList host ua st) = []")
  case False
  then show ?thesis by (simp add: populateVoiceList_def [of host ua "populateVoiceList host ua st"])
next
  case True
  show ?thesis
  proof (cases "voices st = []")
    case False
    then show ?thesis by (simp add: populateVoiceList_def)
  next
    case st: True
    show ?thesis
    proof (cases "host = []")
      case True
      with st show ?thesis by (simp add: populateVoiceList_def)
    next
      case False
      then show ?thesis
        using True st
        by (simp add: populateVoiceList_def [of host ua] Let_def split: if_splits)
    qed
  qed
qed

text \<open>
  C9. While the catalog is not empty, \<open>populateVoiceList\<close> returns at once and changes
  nothing, whatever the host reports: in particular a second call after a first call
  that filled the catalog leaves the catalog, both speaker selections and the rest of
  the state as the first call left them. (A second call with the same host list and
  user agent changes nothing even when the first call left the catalog empty.)
\<close>

theorem populate_idempotent:
  "(voices st \<noteq> [] \<longrightarrow> populateVoiceList host ua st = st) \<and>
   (voices (populateVoiceList host1 ua1 st) \<noteq> [] \<longrightarrow>
      populateVoiceList host ua (populateVoiceList host1 ua1 st) = populateVoiceList host1 ua1 st) \<and>
   populateVoiceList host ua (populateVoiceList host ua st) = populateVoiceList host ua st"
  using populate_twice [of host ua st]
  by (simp add: populateVoiceList_def [of host ua st] populateVoiceList_def [of host ua "populateVoiceList host1 ua1 st"])

theorem populate_idempotent_witness:
  "voices (populateVoiceList [sonia, emmaVoice] firefoxAgent (initialState dialogue))
     = [sonia, emmaVoice] \<and>
   populateVoiceList [hortense, yaoyaoVoice] edgeAgent
       (populateVoiceList [sonia, emmaVoice] firefoxAgent (initialState dialogue))
     = populateVoiceList [sonia, emmaVoice] firefoxAgent (initialState dialogue)"
proof -
  have a: "voices (populateVoiceList [sonia, emmaVoice] firefoxAgent (initialState dialogue))
     = [sonia, emmaVoice]"
    by code_simp
  then have b: "voices (populateVoiceList [sonia, emmaVoice] firefoxAgent (initialState dialogue)) \<noteq> []"
    by simp
  have "populateVoiceList [hortense, yaoyaoVoice] edgeAgent
       (populateVoiceList [sonia, emmaVoice] firefoxAgent (initialState dialogue))
     = populateVoiceList [sonia, emmaVoice] firefoxAgent (initialState dialogue)"
    using populate_idempotent [of "initialState dialogue" "[hortense, yaoyaoVoice]" edgeAgent
        "[sonia, emmaVoice]" firefoxAgent] b
    by blast
  with a show ?thesis
    by (intro conjI)
qed

text \<open>
  C5. After a run of \<open>populateVoiceList\<close> the catalog is not empty, or the
  unsupported-environment status is set, or the host reported voices of which none
  passes the filter of the branch taken; in that last case the catalog is empty and the
  status line is what it was before the run.
\<close>

theorem populate_catalog_or_error:
  "voices (populateVoiceList host ua st) \<noteq> [] \<or>
   errorMessage (populateVoiceList host ua st) = Unsupported \<or>
   (host \<noteq> [] \<and> filter (branchKeep ua) host = [] \<and>
    voices (populateVoiceList host ua st) = [] \<and>
    errorMessage (populateVoiceList host ua st) = errorMessage st)"
proof (cases "voices st = []")
  case False
  then show ?thesis by (simp add: populateVoiceList_def)
next
  case True
  show ?thesis
  proof (cases "host = []")
    case True
    with \<open>voices st = []\<close> show ?thesis by (simp add: populateVoiceList_def)
  next
    case False
    have "isEdge ua \<Longrightarrow> branchKeep ua = edgeKeep"
      by (simp add: branchKeep_def isEdge_not_isChrome)
    then show ?thesis
      using populate_voices [OF True False, of ua] False
      by (auto simp: sort_key_Nil_iff)
  qed
qed

theorem populate_catalog_or_error_witness:
  "voices (populateVoiceList [emmaVoice, yaoyaoVoice] chromeAgent (initialState dialogue)) = [] \<and>
   errorMessage (populateVoiceList [emmaVoice, yaoyaoVoice] chromeAgent (initialState dialogue))
     = NoMessage \<and>
   filter (branchKeep chromeAgent) [emmaVoice, yaoyaoVoice] = []"
proof -
  have a: "voices (populateVoiceList [emmaVoice, yaoyaoVoice] chromeAgent (initialState dialogue)) = []"
    by code_simp
  have b: "errorMessage (populateVoiceList [emmaVoice, yaoyaoVoice] chromeAgent (initialState dialogue)) = NoMessage"
    by code_simp
  show ?thesis
    using populate_catalog_or_error [of "[emmaVoice, yaoyaoVoice]" chromeAgent "initialState dialogue"] a b
    by simp
qed

text \<open>
  The claim as it is written fails for a host whose voices are all filtered out: one
  French voice in a browser that is neither Chrome nor Edge leaves the catalog empty and
  reports no error.
\<close>

theorem populate_empty_without_error:
  "voices (populateVoiceList [hortense] firefoxAgent (initialState dialogue)) = [] \<and>
   errorMessage (populateVoiceList [hortense] firefoxAgent (initialState dialogue)) \<noteq> Unsupported"
  by code_simp

lemma claimedEdgeKeep_eq: "claimedEdgeKeep = edgeKeep"
  by (rule ext) (auto simp: claimedEdgeKeep_def edgeKeep_def zhJaRule_def)

lemma langOrder_claimedRank: "langOrder l = int (claimedRank l)"
  by (simp add: langOrder_def claimedRank_def)

lemma insort_key_int: "insort_key (\<lambda>v. int (f v)) x ys = insort_key f x ys"
  by (induction ys) simp_all

lemma sort_key_int: "sort_key (\<lambda>v. int (f v)) xs = sort_key f xs"
  by (induction xs) (simp_all add: insort_key_int)

lemma populate_edge_claimed:
  assumes "voices st = []" and "isEdge ua"
  shows "voices (populateVoiceList host ua st)
           = sort_key (\<lambda>v. claimedRank (lang v)) (filter claimedEdgeKeep host)"
proof (cases "host = []")
  case True
  with assms show ?thesis by (simp add: populateVoiceList_def)
next
  case False
  with assms show ?thesis
    by (simp add: populate_voices claimedEdgeKeep_eq langOrder_claimedRank sort_key_int)
qed

text \<open>
  C7. In the Edge branch (the catalog is empty before the call and the user agent
  contains \<open>edg\<close>) the catalog is the list of the host's voices that the worded filter
  keeps, sorted by the worded rank of the language with the library's stable sort: it
  is ordered by rank, it has the kept voices and no others, and the voices of one rank
  stand in the order in which the host listed them.
\<close>

theorem populate_edge_catalog:
  assumes "voices st = []" and "isEdge ua"
  shows "voices (populateVoiceList host ua st)
           = sort_key (\<lambda>v. claimedRank (lang v)) (filter claimedEdgeKeep host) \<and>
         sorted (map (\<lambda>v. claimedRank (lang v)) (voices (populateVoiceList host ua st))) \<and>
         mset (voices (populateVoiceList host ua st)) = mset (filter claimedEdgeKeep host) \<and>
         (\<forall>k. filter (\<lambda>v. claimedRank (lang v) = k) (voices (populateVoiceList host ua st))
               = filter (\<lambda>v. claimedRank (lang v) = k) (filter claimedEdgeKeep host))"
  by (simp add: populate_edge_claimed [OF assms] sort_key_stable)

theorem populate_edge_catalog_witness:
  "isEdge edgeAgent \<and>
   voices (populateVoiceList [sonia, hortense, emmaVoice, yaoyaoVoice] edgeAgent (initialState dialogue))
     = [yaoyaoVoice, emmaVoice, sonia]"
proof -
  have a: "voices (initialState dialogue) = []"
    by (simp add: initialState_def)
  have b: "isEdge edgeAgent"
    by code_simp
  have c: "sort_key (\<lambda>v. claimedRank (lang v)) (filter claimedEdgeKeep [sonia, hortense, emmaVoice, yaoyaoVoice])
           = [yaoyaoVoice, emmaVoice, sonia]"
    by code_simp
  show ?thesis
    using populate_edge_catalog [OF a b, of "[sonia, hortense, emmaVoice, yaoyaoVoice]"] b c
    by simp
qed

section \<open>The dispatch of lines: speaking only\<close>

lemma awaitEnd_state: "\<exists>m. snd (awaitEnd ss st) = st\<lparr>errorMessage := m\<rparr>"
proof (induction ss st rule: awaitEnd.induct)
  case (1 st)
  have "st = st\<lparr>errorMessage := errorMessage st\<rparr>"
    by simp
  then show ?case
    by (metis awaitEnd.simps(1) snd_conv)
next
  case (2 ss st)
  then show ?case by simp
next
  case (3 e ss st)
  then obtain m where
    "snd (awaitEnd ss (st\<lparr>errorMessage := SynthError e\<rparr>))
       = st\<lparr>errorMessage := SynthError e\<rparr>\<lparr>errorMessage := m\<rparr>"
    by blast
  then have "snd (awaitEnd (Error e # ss) st) = st\<lparr>errorMessage := m\<rparr>"
    by simp
  then show ?case by blast
qed

lemma awaitEnd_resolved: "fst (awaitEnd ss st) = (End \<in> set ss)"
  by (induction ss st rule: awaitEnd.induct) simp_all

lemma lineVoice_update [simp]:
  "lineVoice (st\<lparr>errorMessage := m\<rparr>) l = lineVoice st l"
  "lineVoice (st\<lparr>currentLineIndex := c\<rparr>) l = lineVoice st l"
  by (simp_all add: lineVoice_def findVoice_def)

lemma lineEvents_update [simp]:
  "lineEvents (st\<lparr>errorMessage := m\<rparr>) = lineEvents st"
  "lineEvents (st\<lparr>currentLineIndex := c\<rparr>) = lineEvents st"
  by (rule ext, simp add: lineEvents_def)+

lemma speakEvent_update [simp]:
  "speakEvent (st\<lparr>errorMessage := m\<rparr>) = speakEvent st"
  by (rule ext) (simp add: speakEvent_def)

lemma readAloudLoop_complete:
  assumes "\<forall>l\<in>set lines. lineVoice st l \<noteq> None"
    and "\<forall>j<length lines. End \<in> set (host (i + j))"
  shows "\<exists>m c. readAloudLoop host i lines st
           = (Finished, st\<lparr>errorMessage := m, currentLineIndex := c\<rparr>,
              concat (map (lineEvents st) (enumerate i lines)))"
  using assms
proof (induction lines arbitrary: i st)
  case Nil
  have "st = st\<lparr>errorMessage := errorMessage st, currentLineIndex := currentLineIndex st\<rparr>"
    by simp
  then have "readAloudLoop host i [] st
           = (Finished, st\<lparr>errorMessage := errorMessage st, currentLineIndex := currentLineIndex st\<rparr>,
              concat (map (lineEvents st) (enumerate i [])))"
    by simp
  then show ?case by blast
next
  case (Cons line rest)
  from Cons.prems(1) obtain v where v: "lineVoice st line = Some v"
    by auto
  let ?st1 = "st\<lparr>currentLineIndex := Some i\<rparr>"
  obtain m1 where m1: "snd (awaitEnd (host i) ?st1) = ?st1\<lparr>errorMessage := m1\<rparr>"
    using awaitEnd_state by blast
  let ?st2 = "?st1\<lparr>errorMessage := m1\<rparr>"
  have e: "fst (awaitEnd (host i) ?st1)"
    using Cons.prems(2) by (force simp: awaitEnd_resolved)
  have aw: "awaitEnd (host i) ?st1 = (True, ?st2)"
    using e m1 by (cases "awaitEnd (host i) ?st1") simp
  have "\<forall>l\<in>set rest. lineVoice ?st2 l \<noteq> None"
    using Cons.prems(1) by simp
  moreover have "\<forall>j<length rest. End \<in> set (host (Suc i + j))"
    using Cons.prems(2) by force
  ultimately obtain m c where c: "readAloudLoop host (Suc i) rest ?st2
           = (Finished, ?st2\<lparr>errorMessage := m, currentLineIndex := c\<rparr>,
              concat (map (lineEvents ?st2) (enumerate (Suc i) rest)))"
    using Cons.IH [of ?st2 "Suc i"] by blast
  have "readAloudLoop host i (line # rest) st
           = (Finished, st\<lparr>errorMessage := m, currentLineIndex := c\<rparr>,
              concat (map (lineEvents st) (enumerate i (line # rest))))"
    using v aw c by (simp add: lineEvents_def)
  then show ?case by blast
qed

lemma readAloudLoop_suspended:
  assumes "k < length lines"
    and "\<forall>l\<in>set (take (Suc k) lines). lineVoice st l \<noteq> None"
    and "\<forall>j<k. End \<in> set (host (i + j))"
    and "End \<notin> set (host (i + k))"
  shows "\<exists>m. readAloudLoop host i lines st
           = (Suspended, st\<lparr>errorMessage := m, currentLineIndex := Some (i + k)\<rparr>,
              concat (map (lineEvents st) (enumerate i (take (Suc k) lines))))"
  using assms
proof (induction lines arbitrary: i k st)
  case Nil
  then show ?case by simp
next
  case (Cons line rest)
  from Cons.prems(2) obtain v where v: "lineVoice st line = Some v"
    by auto
  let ?st1 = "st\<lparr>currentLineIndex := Some i\<rparr>"
  obtain m1 where m1: "snd (awaitEnd (host i) ?st1) = ?st1\<lparr>errorMessage := m1\<rparr>"
    using awaitEnd_state by blast
  let ?st2 = "?st1\<lparr>errorMessage := m1\<rparr>"
  show ?case
  proof (cases k)
    case 0
    then have "\<not> fst (awaitEnd (host i) ?st1)"
      using Cons.prems(4) by (simp add: awaitEnd_resolved)
    then have aw: "awaitEnd (host i) ?st1 = (False, ?st2)"
      using m1 by (cases "awaitEnd (host i) ?st1") simp
    have "readAloudLoop host i (line # rest) st
           = (Suspended, st\<lparr>errorMessage := m1, currentLineIndex := Some (i + k)\<rparr>,
              concat (map (lineEvents st) (enumerate i (take (Suc k) (line # rest)))))"
      using v aw 0 by (simp add: lineEvents_def)
    then show ?thesis by blast
  next
    case (Suc k')
    have "fst (awaitEnd (host i) ?st1)"
      using Cons.prems(3) Suc by (force simp: awaitEnd_resolved)
    then have aw: "awaitEnd (host i) ?st1 = (True, ?st2)"
      using m1 by (cases "awaitEnd (host i) ?st1") simp
    have "k' < length rest"
      using Cons.prems(1) Suc by simp
    moreover have "\<forall>l\<in>set (take (Suc k') rest). lineVoice ?st2 l \<noteq> None"
      using Cons.prems(2) Suc by simp
    moreover have "\<forall>j<k'. End \<in> set (host (Suc i + j))"
      using Cons.prems(3) Suc by force
    moreover have "End \<notin> set (host (Suc i + k'))"
      using Cons.prems(4) Suc by simp
    ultimately obtain m where "readAloudLoop host (Suc i) rest ?st2
           = (Suspended, ?st2\<lparr>errorMessage := m, currentLineIndex := Some (Suc i + k')\<rparr>,
              concat (map (lineEvents ?st2) (enumerate (Suc i) (take (Suc k') rest))))"
      using Cons.IH [of k' ?st2 "Suc i"] by blast
    then have "readAloudLoop host i (line # rest) st
           = (Suspended, st\<lparr>errorMessage := m, currentLineIndex := Some (i + k)\<rparr>,
              concat (map (lineEvents st) (enumerate i (take (Suc k) (line # rest)))))"
      using v aw Suc by (simp add: lineEvents_def)
    then show ?thesis by blast
  qed
qed

lemma spoken_append [simp]: "spoken (xs @ ys) = spoken xs @ spoken ys"
  by (induction xs rule: spoken.induct) simp_all

lemma spoken_cancel [simp]: "spoken (cancelIfSpeaking speaking) = []"
  by (simp add: cancelIfSpeaking_def)

lemma spoken_lineEvents [simp]: "spoken (lineEvents st p) = lineUtterance st (snd p)"
  by (simp add: lineEvents_def lineUtterance_def split: option.split)

lemma spoken_speakEvent [simp]: "spoken (speakEvent st l) = lineUtterance st l"
  by (simp add: speakEvent_def lineUtterance_def split: option.split)

lemma spoken_concat_lineEvents:
  "spoken (concat (map (lineEvents st) (enumerate i ls))) = concat (map (lineUtterance st) ls)"
  by (induction ls arbitrary: i) simp_all

lemma spoken_concat_speakEvent:
  "spoken (concat (map (speakEvent st) ls)) = concat (map (lineUtterance st) ls)"
  by (induction ls) simp_all

lemma length_utterances:
  "\<forall>l\<in>set ls. lineVoice st l \<noteq> None \<Longrightarrow> length (concat (map (lineUtterance st) ls)) = length ls"
  by (induction ls) (auto simp: lineUtterance_def)

lemma planLines_nonempty_text: "planLines t \<noteq> [] \<Longrightarrow> t \<noteq> []"
  by (cases t) (simp_all add: planLines_def trim_def)

lemma readAloud_complete_run:
  assumes "text_value st \<noteq> []"
    and "voices st \<noteq> []"
    and "\<forall>l\<in>set (planLines (text_value st)). lineVoice st l \<noteq> None"
    and "\<forall>i<length (planLines (text_value st)). End \<in> set (host i)"
  shows "\<exists>m. readAloud speaking host st
           = (Finished, st\<lparr>errorMessage := m, currentLineIndex := None\<rparr>,
              cancelIfSpeaking speaking @
              concat (map (lineEvents st) (enumerate 0 (planLines (text_value st)))) @
              [CurrentLine None])"
proof -
  let ?lines = "planLines (text_value st)"
  let ?st1 = "st\<lparr>errorMessage := NoMessage\<rparr>"
  have "\<forall>l\<in>set ?lines. lineVoice ?st1 l \<noteq> None"
    using assms(3) by simp
  moreover have "\<forall>j<length ?lines. End \<in> set (host (0 + j))"
    using assms(4) by simp
  ultimately obtain m c where
    "readAloudLoop host 0 ?lines ?st1
       = (Finished, ?st1\<lparr>errorMessage := m, currentLineIndex := c\<rparr>,
          concat (map (lineEvents ?st1) (enumerate 0 ?lines)))"
    using readAloudLoop_complete [of ?lines ?st1 host 0] by blast
  then have "readAloud speaking host st
       = (Finished, st\<lparr>errorMessage := m, currentLineIndex := None\<rparr>,
          cancelIfSpeaking speaking @ concat (map (lineEvents st) (enumerate 0 ?lines))
            @ [CurrentLine None])"
    using assms(1,2) by (simp add: readAloud_def)
  then show ?thesis by blast
qed

lemma readAloud_suspended_run:
  assumes "text_value st \<noteq> []"
    and "voices st \<noteq> []"
    and "k < length (planLines (text_value st))"
    and "\<forall>l\<in>set (take (Suc k) (planLines (text_value st))). lineVoice st l \<noteq> None"
    and "\<forall>j<k. End \<in> set (host j)"
    and "End \<notin> set (host k)"
  shows "\<exists>m. readAloud speaking host st
           = (Suspended, st\<lparr>errorMessage := m, currentLineIndex := Some k\<rparr>,
              cancelIfSpeaking speaking @
              concat (map (lineEvents st) (enumerate 0 (take (Suc k) (planLines (text_value st))))))"
proof -
  let ?lines = "planLines (text_value st)"
  let ?st1 = "st\<lparr>errorMessage := NoMessage\<rparr>"
  have "\<forall>l\<in>set (take (Suc k) ?lines). lineVoice ?st1 l \<noteq> None"
    using assms(4) by simp
  moreover have "\<forall>j<k. End \<in> set (host (0 + j))"
    using assms(5) by simp
  moreover have "End \<notin> set (host (0 + k))"
    using assms(6) by simp
  ultimately obtain m where
    "readAloudLoop host 0 ?lines ?st1
       = (Suspended, ?st1\<lparr>errorMessage := m, currentLineIndex := Some (0 + k)\<rparr>,
          concat (map (lineEvents ?st1) (enumerate 0 (take (Suc k) ?lines))))"
    using readAloudLoop_suspended [of k ?lines ?st1 host 0] assms(3) by blast
  then have "readAloud speaking host st
       = (Suspended, st\<lparr>errorMessage := m, currentLineIndex := Some k\<rparr>,
          cancelIfSpeaking speaking @
          concat (map (lineEvents st) (enumerate 0 (take (Suc k) ?lines))))"
    using assms(1,2) by (simp add: readAloud_def)
  then show ?thesis by blast
qed

text \<open>
  C1. Let the text have a non-blank line, the catalog be not empty and the voice of
  every non-blank line be in the catalog. When the host signals the end of every
  utterance, \<open>readAloud\<close> runs to its end: after the cancellation of a running
  utterance, if any, it sets the current-line indicator to the index of a line and then
  submits the utterance of that line, line after line in the order of the text, one
  utterance for each non-blank line, and at last it sets the indicator to \<open>null\<close>. And
  it waits: when the utterances before line \<open>k\<close> have ended and the utterance of line
  \<open>k\<close> has signalled nothing, the run is suspended with the lines up to \<open>k\<close> submitted,
  no later line submitted, and the indicator at \<open>k\<close>.
\<close>

theorem readAloud_visits_every_line:
  assumes "planLines (text_value st) \<noteq> []"
    and "voices st \<noteq> []"
    and "\<forall>l\<in>set (planLines (text_value st)). lineVoice st l \<noteq> None"
  shows "((\<forall>i<length (planLines (text_value st)). End \<in> set (host i)) \<longrightarrow>
            fst (readAloud speaking host st) = Finished \<and>
            snd (snd (readAloud speaking host st))
              = cancelIfSpeaking speaking @
                concat (map (lineEvents st) (enumerate 0 (planLines (text_value st)))) @
                [CurrentLine None] \<and>
            spoken (snd (snd (readAloud speaking host st)))
              = concat (map (lineUtterance st) (planLines (text_value st))) \<and>
            length (spoken (snd (snd (readAloud speaking host st))))
              = length (planLines (text_value st)) \<and>
            currentLineIndex (fst (snd (readAloud speaking host st))) = None) \<and>
         (k < length (planLines (text_value st)) \<and> (\<forall>j<k. End \<in> set (host j)) \<and> host k = [] \<longrightarrow>
            fst (readAloud speaking host st) = Suspended \<and>
            snd (snd (readAloud speaking host st))
              = cancelIfSpeaking speaking @
                concat (map (lineEvents st)
                         (enumerate 0 (take (Suc k) (planLines (text_value st))))) \<and>
            spoken (snd (snd (readAloud speaking host st)))
              = concat (map (lineUtterance st) (take (Suc k) (planLines (text_value st)))) \<and>
            length (spoken (snd (snd (readAloud speaking host st)))) = Suc k \<and>
            currentLineIndex (fst (snd (readAloud speaking host st))) = Some k)"
proof (intro conjI impI)
  let ?lines = "planLines (text_value st)"
  have t: "text_value st \<noteq> []"
    using assms(1) by (rule planLines_nonempty_text)
  {
    assume ends: "\<forall>i<length ?lines. End \<in> set (host i)"
    obtain m where run: "readAloud speaking host st
           = (Finished, st\<lparr>errorMessage := m, currentLineIndex := None\<rparr>,
              cancelIfSpeaking speaking @ concat (map (lineEvents st) (enumerate 0 ?lines)) @
              [CurrentLine None])"
      using readAloud_complete_run [OF t assms(2,3) ends] by blast
    show "fst (readAloud speaking host st) = Finished"
      by (simp add: run)
    show "snd (snd (readAloud speaking host st))
              = cancelIfSpeaking speaking @ concat (map (lineEvents st) (enumerate 0 ?lines)) @
                [CurrentLine None]"
      by (simp add: run)
    show "spoken (snd (snd (readAloud speaking host st))) = concat (map (lineUtterance st) ?lines)"
      by (simp add: run spoken_concat_lineEvents)
    show "length (spoken (snd (snd (readAloud speaking host st)))) = length ?lines"
      using assms(3) by (simp add: run spoken_concat_lineEvents length_utterances)
    show "currentLineIndex (fst (snd (readAloud speaking host st))) = None"
      by (simp add: run)
  }
  {
    assume waits: "k < length ?lines \<and> (\<forall>j<k. End \<in> set (host j)) \<and> host k = []"
    then have k: "k < length ?lines" and before: "\<forall>j<k. End \<in> set (host j)"
      and quiet: "End \<notin> set (host k)"
      by simp_all
    have res: "\<forall>l\<in>set (take (Suc k) ?lines). lineVoice st l \<noteq> None"
      using assms(3) by (auto dest: in_set_takeD)
    obtain m where run: "readAloud speaking host st
           = (Suspended, st\<lparr>errorMessage := m, currentLineIndex := Some k\<rparr>,
              cancelIfSpeaking speaking @
              concat (map (lineEvents st) (enumerate 0 (take (Suc k) ?lines))))"
      using readAloud_suspended_run [OF t assms(2) k res before quiet] by blast
    have len: "length (concat (map (lineUtterance st) (take (Suc k) ?lines))) = Suc k"
      using length_utterances [OF res] k by simp
    show "fst (readAloud speaking host st) = Suspended"
      by (simp add: run)
    show "snd (snd (readAloud speaking host st))
              = cancelIfSpeaking speaking @
                concat (map (lineEvents st) (enumerate 0 (take (Suc k) ?lines)))"
      by (simp add: run)
    show "spoken (snd (snd (readAloud speaking host st)))
              = concat (map (lineUtterance st) (take (Suc k) ?lines))"
      by (simp add: run spoken_concat_lineEvents)
    show "length (spoken (snd (snd (readAloud speaking host st)))) = Suc k"
      using len by (simp add: run spoken_concat_lineEvents)
    show "currentLineIndex (fst (snd (readAloud speaking host st))) = Some k"
      by (simp add: run)
  }
qed

lemma dialogue_plan:
  "planLines (text_value (readyState dialogue))
     = [str ''Speaker 1: Hello'', str ''Speaker 2:Ni hao'', str ''plain'']"
  by code_simp

lemma dialogue_resolves:
  "\<forall>l\<in>set (planLines (text_value (readyState dialogue))). lineVoice (readyState dialogue) l \<noteq> None"
  by code_simp

lemma dialogue_ready:
  "text_value (readyState dialogue) \<noteq> []" "voices (readyState dialogue) \<noteq> []"
  by code_simp+

theorem readAloud_visits_every_line_witness:
  "fst (readAloud True alwaysEnd (readyState dialogue)) = Finished \<and>
   snd (snd (readAloud True alwaysEnd (readyState dialogue)))
     = [SynthCancel,
        CurrentLine (Some 0), SynthSpeak (str ''Hello'') emmaVoice,
        CurrentLine (Some 1), SynthSpeak (str ''Ni hao'') yaoyaoVoice,
        CurrentLine (Some 2), SynthSpeak (str ''plain'') emmaVoice,
        CurrentLine None] \<and>
   length (spoken (snd (snd (readAloud True alwaysEnd (readyState dialogue))))) = 3 \<and>
   currentLineIndex (fst (snd (readAloud True alwaysEnd (readyState dialogue)))) = None \<and>
   fst (readAloud False silent (readyState dialogue)) = Suspended \<and>
   snd (snd (readAloud False silent (readyState dialogue)))
     = [CurrentLine (Some 0), SynthSpeak (str ''Hello'') emmaVoice] \<and>
   currentLineIndex (fst (snd (readAloud False silent (readyState dialogue)))) = Some 0"
proof -
  have h1: "planLines (text_value (readyState dialogue)) \<noteq> []"
    by (simp add: dialogue_plan)
  have h4: "\<forall>i<length (planLines (text_value (readyState dialogue))). End \<in> set (alwaysEnd i)"
    by (simp add: alwaysEnd_def)
  have h5: "0 < length (planLines (text_value (readyState dialogue))) \<and>
            (\<forall>j<0. End \<in> set (silent j)) \<and> silent 0 = []"
    by (simp add: dialogue_plan silent_def)
  have ev: "cancelIfSpeaking True @
        concat (map (lineEvents (readyState dialogue))
                 (enumerate 0 (planLines (text_value (readyState dialogue))))) @
        [CurrentLine None]
     = [SynthCancel,
        CurrentLine (Some 0), SynthSpeak (str ''Hello'') emmaVoice,
        CurrentLine (Some 1), SynthSpeak (str ''Ni hao'') yaoyaoVoice,
        CurrentLine (Some 2), SynthSpeak (str ''plain'') emmaVoice,
        CurrentLine None]"
    by code_simp
  have ev0: "cancelIfSpeaking False @
        concat (map (lineEvents (readyState dialogue))
                 (enumerate 0 (take (Suc 0) (planLines (text_value (readyState dialogue))))))
     = [CurrentLine (Some 0), SynthSpeak (str ''Hello'') emmaVoice]"
    by code_simp
  have n: "length (planLines (text_value (readyState dialogue))) = 3"
    by (simp add: dialogue_plan)
  note r = readAloud_visits_every_line
             [OF h1 dialogue_ready(2) dialogue_resolves,
              where speaking = True and host = alwaysEnd and k = 0,
              THEN conjunct1, THEN mp, OF h4]
  note q = readAloud_visits_every_line
             [OF h1 dialogue_ready(2) dialogue_resolves,
              where speaking = False and host = silent and k = 0,
              THEN conjunct2, THEN mp, OF h5]
  from r have a: "fst (readAloud True alwaysEnd (readyState dialogue)) = Finished"
    by (rule conjunct1)
  from r have b: "snd (snd (readAloud True alwaysEnd (readyState dialogue)))
     = [SynthCancel,
        CurrentLine (Some 0), SynthSpeak (str ''Hello'') emmaVoice,
        CurrentLine (Some 1), SynthSpeak (str ''Ni hao'') yaoyaoVoice,
        CurrentLine (Some 2), SynthSpeak (str ''plain'') emmaVoice,
        CurrentLine None]"
    unfolding ev by (elim conjE)
  from r have c: "length (spoken (snd (snd (readAloud True alwaysEnd (readyState dialogue))))) = 3"
    unfolding n by (elim conjE)
  from r have d: "currentLineIndex (fst (snd (readAloud True alwaysEnd (readyState dialogue)))) = None"
    by (elim conjE)
  from q have e: "fst (readAloud False silent (readyState dialogue)) = Suspended"
    by (rule conjunct1)
  from q have f: "snd (snd (readAloud False silent (readyState dialogue)))
     = [CurrentLine (Some 0), SynthSpeak (str ''Hello'') emmaVoice]"
    unfolding ev0 by (elim conjE)
  from q have g: "currentLineIndex (fst (snd (readAloud False silent (readyState dialogue)))) = Some 0"
    by (elim conjE)
  from a b c d e f g show ?thesis
    by (intro conjI)
qed

text \<open>
  Without the end signals the run does not visit every line. At the three-line text,
  with a catalog that holds the voice of every line and a host whose first utterance
  ends and whose second utterance is still being spoken, two utterances are submitted,
  the third line is never reached and the indicator stays at 1.
\<close>

theorem readAloud_waits_for_end:
  "length (planLines (text_value (readyState dialogue))) = 3 \<and>
   voices (readyState dialogue) \<noteq> [] \<and>
   None \<notin> set (map (lineVoice (readyState dialogue)) (planLines (text_value (readyState dialogue)))) \<and>
   fst (readAloud False endThenSilent (readyState dialogue)) = Suspended \<and>
   spoken (snd (snd (readAloud False endThenSilent (readyState dialogue))))
     = [(str ''Hello'', emmaVoice), (str ''Ni hao'', yaoyaoVoice)] \<and>
   currentLineIndex (fst (snd (readAloud False endThenSilent (readyState dialogue)))) = Some 1"
  by code_simp

text \<open>
  C3. In \<open>readAloud\<close> an error signal of an utterance writes the error text into the
  status line, but it does not resolve the wait for the utterance: only the end signal
  does. At the three-line text, with a catalog that holds the voice of every line and a
  host that answers every utterance with one error signal and no end signal, the run
  neither ends nor goes on to the next line: it stays suspended at the first line, with
  one utterance submitted out of three, the error text in the status line and the
  indicator at 0.
\<close>

theorem readAloud_error_suspends:
  "errorOnly 0 = [Error (str ''synthesis-failed'')] \<and>
   length (planLines (text_value (readyState dialogue))) = 3 \<and>
   None \<notin> set (map (lineVoice (readyState dialogue)) (planLines (text_value (readyState dialogue)))) \<and>
   fst (readAloud False errorOnly (readyState dialogue)) = Suspended \<and>
   spoken (snd (snd (readAloud False errorOnly (readyState dialogue))))
     = [(str ''Hello'', emmaVoice)] \<and>
   errorMessage (fst (snd (readAloud False errorOnly (readyState dialogue))))
     = SynthError (str ''synthesis-failed'') \<and>
   currentLineIndex (fst (snd (readAloud False errorOnly (readyState dialogue)))) = Some 0"
  by code_simp

section \<open>The dispatch of lines: missing input\<close>

lemma readAloud_blank:
  "text_value st \<noteq> [] \<Longrightarrow> voices st \<noteq> [] \<Longrightarrow> planLines (text_value st) = [] \<Longrightarrow>
   readAloud speaking host st
     = (Finished, st\<lparr>errorMessage := NoMessage, currentLineIndex := None\<rparr>,
        cancelIfSpeaking speaking @ [CurrentLine None])"
  by (simp add: readAloud_def)

lemma speak_blank:
  "text_value st \<noteq> [] \<Longrightarrow> voices st \<noteq> [] \<Longrightarrow> planLines (text_value st) = [] \<Longrightarrow>
   speak speaking g host st
     = (case g of
          NoAnswer \<Rightarrow> (Suspended, st\<lparr>errorMessage := CapturePrompt\<rparr>,
                       cancelIfSpeaking speaking @ [GetDisplayMedia])
        | Denied \<Rightarrow> (Returned, st\<lparr>errorMessage := CaptureDenied\<rparr>,
                     cancelIfSpeaking speaking @ [GetDisplayMedia])
        | Granted recorder \<Rightarrow>
            (Finished, st\<lparr>errorMessage := Downloaded\<rparr>,
             cancelIfSpeaking speaking @
             [GetDisplayMedia, RecorderStop,
              Download (wavHeader (2 * length (concat (samples recorder))) (sampleRate recorder)
                        @ pcmBytes (samples recorder))]))"
  by (simp add: speak_def stop_eq split: grant.split)

lemma missing_input_both:
  "text_value st = [] \<or> voices st = [] \<Longrightarrow>
   readAloud speaking host st = (Finished, st\<lparr>errorMessage := MissingInput\<rparr>, cancelIfSpeaking speaking) \<and>
   speak speaking g host st = (Returned, st\<lparr>errorMessage := MissingInput\<rparr>, cancelIfSpeaking speaking)"
  by (auto simp: readAloud_def speak_def)

text \<open>
  C4. When the text is empty or the catalog is empty, \<open>readAloud\<close> and \<open>speak\<close> set the
  missing-input status and submit no utterance. A text whose lines are all blank gives
  no utterance either; but when it is not empty and the catalog is not empty, the
  missing-input status is not set: \<open>readAloud\<close> clears the status line, and \<open>speak\<close> goes
  on to the capture request.
\<close>

theorem dispatch_missing_input:
  "(text_value st = [] \<or> voices st = [] \<longrightarrow>
      readAloud speaking host st
        = (Finished, st\<lparr>errorMessage := MissingInput\<rparr>, cancelIfSpeaking speaking) \<and>
      speak speaking g host st
        = (Returned, st\<lparr>errorMessage := MissingInput\<rparr>, cancelIfSpeaking speaking) \<and>
      spoken (cancelIfSpeaking speaking) = []) \<and>
   (planLines (text_value st) = [] \<longrightarrow>
      spoken (snd (snd (readAloud speaking host st))) = [] \<and>
      spoken (snd (snd (speak speaking g host st))) = []) \<and>
   (text_value st \<noteq> [] \<and> voices st \<noteq> [] \<and> planLines (text_value st) = [] \<longrightarrow>
      errorMessage (fst (snd (readAloud speaking host st))) = NoMessage \<and>
      errorMessage (fst (snd (speak speaking g host st)))
        \<in> set [CapturePrompt, CaptureDenied, Downloaded])"
proof (intro conjI impI)
  assume a: "text_value st = [] \<or> voices st = []"
  show "readAloud speaking host st
        = (Finished, st\<lparr>errorMessage := MissingInput\<rparr>, cancelIfSpeaking speaking)"
    using missing_input_both [OF a] by simp
  show "speak speaking g host st
        = (Returned, st\<lparr>errorMessage := MissingInput\<rparr>, cancelIfSpeaking speaking)"
    using missing_input_both [OF a] by simp
  show "spoken (cancelIfSpeaking speaking) = []"
    by simp
next
  assume b: "planLines (text_value st) = []"
  show "spoken (snd (snd (readAloud speaking host st))) = []"
  proof (cases "text_value st = [] \<or> voices st = []")
    case True
    then show ?thesis using missing_input_both [OF True] by simp
  next
    case False
    then show ?thesis using readAloud_blank [of st speaking host] b by simp
  qed
  show "spoken (snd (snd (speak speaking g host st))) = []"
  proof (cases "text_value st = [] \<or> voices st = []")
    case True
    then show ?thesis using missing_input_both [OF True] by simp
  next
    case False
    then show ?thesis using speak_blank [of st speaking g host] b
      by (cases g) simp_all
  qed
next
  assume c: "text_value st \<noteq> [] \<and> voices st \<noteq> [] \<and> planLines (text_value st) = []"
  then show "errorMessage (fst (snd (readAloud speaking host st))) = NoMessage"
    using readAloud_blank [of st speaking host] by simp
  from c show "errorMessage (fst (snd (speak speaking g host st)))
        \<in> set [CapturePrompt, CaptureDenied, Downloaded]"
    using speak_blank [of st speaking g host] by (cases g) simp_all
qed

lemma blank_plan:
  "planLines (text_value (readyState (str '' ''))) = []"
  "text_value (readyState (str '' '')) \<noteq> [] \<and> voices (readyState (str '' '')) \<noteq> [] \<and>
   planLines (text_value (readyState (str '' ''))) = []"
  by code_simp+

theorem dispatch_missing_input_witness:
  "readAloud True alwaysEnd (initialState dialogue)
     = (Finished, (initialState dialogue)\<lparr>errorMessage := MissingInput\<rparr>, [SynthCancel]) \<and>
   speak True Denied alwaysEnd (initialState dialogue)
     = (Returned, (initialState dialogue)\<lparr>errorMessage := MissingInput\<rparr>, [SynthCancel]) \<and>
   spoken (snd (snd (readAloud False alwaysEnd (readyState (str '' ''))))) = [] \<and>
   spoken (snd (snd (speak False Denied alwaysEnd (readyState (str '' ''))))) = [] \<and>
   errorMessage (fst (snd (readAloud False alwaysEnd (readyState (str '' ''))))) = NoMessage"
proof -
  have a: "text_value (initialState dialogue) = [] \<or> voices (initialState dialogue) = []"
    by (simp add: initialState_def)
  have d: "cancelIfSpeaking True = [SynthCancel]"
    by (simp add: cancelIfSpeaking_def)
  note r1 = dispatch_missing_input [of "initialState dialogue" True alwaysEnd Denied, unfolded d]
  note r2 = dispatch_missing_input [of "readyState (str '' '')" False alwaysEnd Denied]
  from r1 a have p1: "readAloud True alwaysEnd (initialState dialogue)
     = (Finished, (initialState dialogue)\<lparr>errorMessage := MissingInput\<rparr>, [SynthCancel])"
    by blast
  from r1 a have p2: "speak True Denied alwaysEnd (initialState dialogue)
     = (Returned, (initialState dialogue)\<lparr>errorMessage := MissingInput\<rparr>, [SynthCancel])"
    by blast
  from r2 blank_plan have p3:
    "spoken (snd (snd (readAloud False alwaysEnd (readyState (str '' ''))))) = []"
    "spoken (snd (snd (speak False Denied alwaysEnd (readyState (str '' ''))))) = []"
    "errorMessage (fst (snd (readAloud False alwaysEnd (readyState (str '' ''))))) = NoMessage"
    by blast+
  from p1 p2 p3 show ?thesis
    by (intro conjI)
qed

text \<open>
  The claim as it is written fails for a text that is one space: no utterance is
  submitted, but the status line is cleared by \<open>readAloud\<close> and holds the capture-denied
  text after a refused \<open>speak\<close>; the missing-input status is not set.
\<close>

theorem blank_text_no_missing_input:
  "text_value (readyState (str '' '')) = str '' '' \<and>
   planLines (str '' '') = [] \<and>
   errorMessage (fst (snd (readAloud False alwaysEnd (readyState (str '' ''))))) = NoMessage \<and>
   errorMessage (fst (snd (speak False Denied alwaysEnd (readyState (str '' '')))))
     = CaptureDenied"
  by code_simp

section \<open>The dispatch of lines: recording\<close>

lemma speakLoop_rejected:
  assumes "k < length lines"
    and "\<forall>l\<in>set (take (Suc k) lines). lineVoice st l \<noteq> None"
    and "\<forall>j<k. \<exists>ss. host (i + j) = End # ss"
    and "host (i + k) = Error e # rest"
  shows "speakLoop host i lines st
           = (Rejected, st\<lparr>errorMessage := SpeakFailed\<rparr>,
              concat (map (speakEvent st) (take (Suc k) lines)))"
  using assms
proof (induction lines arbitrary: i k)
  case Nil
  then show ?case by simp
next
  case (Cons raw more)
  from Cons.prems(2) obtain v where v: "lineVoice st raw = Some v"
    by auto
  then have ev: "speakEvent st raw = [SynthSpeak (utterText raw) v]"
    by (simp add: speakEvent_def)
  show ?case
  proof (cases k)
    case 0
    with Cons.prems(4) v ev show ?thesis
      by simp
  next
    case (Suc k')
    with Cons.prems(3) obtain ss where ss: "host i = End # ss"
      by force
    have "k' < length more"
      using Cons.prems(1) Suc by simp
    moreover have "\<forall>l\<in>set (take (Suc k') more). lineVoice st l \<noteq> None"
      using Cons.prems(2) Suc by simp
    moreover have "\<forall>j<k'. \<exists>ss. host (Suc i + j) = End # ss"
      using Cons.prems(3) Suc by force
    moreover have "host (Suc i + k') = Error e # rest"
      using Cons.prems(4) Suc by simp
    ultimately have "speakLoop host (Suc i) more st
           = (Rejected, st\<lparr>errorMessage := SpeakFailed\<rparr>,
              concat (map (speakEvent st) (take (Suc k') more)))"
      by (rule Cons.IH)
    with v ss Suc ev show ?thesis
      by simp
  qed
qed

lemma speakEvent_events:
  "RecorderStop \<notin> set (concat (map (speakEvent st) ls)) \<and>
   (\<forall>wav. Download wav \<notin> set (concat (map (speakEvent st) ls)))"
  by (induction ls) (auto simp: speakEvent_def split: option.splits)

lemma speak_rejected_run:
  assumes "text_value st \<noteq> []"
    and "voices st \<noteq> []"
    and "k < length (planLines (text_value st))"
    and "\<forall>l\<in>set (take (Suc k) (planLines (text_value st))). lineVoice st l \<noteq> None"
    and "\<forall>j<k. \<exists>ss. host j = End # ss"
    and "host k = Error e # rest"
  shows "speak speaking (Granted recorder) host st
           = (Rejected, st\<lparr>errorMessage := SpeakFailed\<rparr>,
              cancelIfSpeaking speaking @ GetDisplayMedia #
              concat (map (speakEvent st) (take (Suc k) (planLines (text_value st)))))"
proof -
  let ?lines = "planLines (text_value st)"
  let ?st2 = "st\<lparr>errorMessage := CapturePrompt, errorMessage := Recording\<rparr>"
  have "\<forall>l\<in>set (take (Suc k) ?lines). lineVoice ?st2 l \<noteq> None"
    using assms(4) by simp
  moreover have "\<forall>j<k. \<exists>ss. host (0 + j) = End # ss"
    using assms(5) by simp
  moreover have "host (0 + k) = Error e # rest"
    using assms(6) by simp
  ultimately have "speakLoop host 0 ?lines ?st2
           = (Rejected, ?st2\<lparr>errorMessage := SpeakFailed\<rparr>,
              concat (map (speakEvent ?st2) (take (Suc k) ?lines)))"
    using assms(3) by (intro speakLoop_rejected)
  then show ?thesis
    using assms(1,2) by (simp add: speak_def)
qed

text \<open>
  C10. In \<open>speak\<close>, when the utterances of the lines before line \<open>k\<close> end and the
  utterance of line \<open>k\<close> signals an error, the run is rejected at that line: the status
  line holds the failure text, \<open>k + 1\<close> utterances were submitted, the recorder was not
  stopped and nothing was downloaded.
\<close>

theorem speak_error_rejects:
  assumes "text_value st \<noteq> []"
    and "voices st \<noteq> []"
    and "k < length (planLines (text_value st))"
    and "\<forall>l\<in>set (take (Suc k) (planLines (text_value st))). lineVoice st l \<noteq> None"
    and "\<forall>j<k. \<exists>ss. host j = End # ss"
    and "host k = Error e # rest"
  shows "speak speaking (Granted recorder) host st
           = (Rejected, st\<lparr>errorMessage := SpeakFailed\<rparr>,
              cancelIfSpeaking speaking @ GetDisplayMedia #
              concat (map (speakEvent st) (take (Suc k) (planLines (text_value st))))) \<and>
         RecorderStop \<notin> set (snd (snd (speak speaking (Granted recorder) host st))) \<and>
         (\<forall>wav. Download wav \<notin> set (snd (snd (speak speaking (Granted recorder) host st)))) \<and>
         length (spoken (snd (snd (speak speaking (Granted recorder) host st)))) = Suc k"
proof -
  let ?lines = "planLines (text_value st)"
  note run = speak_rejected_run [OF assms, of speaking recorder]
  have len: "length (concat (map (lineUtterance st) (take (Suc k) ?lines))) = Suc k"
    using length_utterances [of "take (Suc k) ?lines" st] assms(3,4) by simp
  show ?thesis
    unfolding run using speakEvent_events [of st "take (Suc k) ?lines"] len
    by (auto simp: spoken_concat_speakEvent cancelIfSpeaking_def)
qed

lemma dialogue_rejected_hyps:
  "1 < length (planLines (text_value (readyState dialogue)))"
  "\<forall>l\<in>set (take (Suc 1) (planLines (text_value (readyState dialogue)))).
      lineVoice (readyState dialogue) l \<noteq> None"
  "\<forall>j<1. \<exists>ss. endThenError j = End # ss"
  "endThenError 1 = Error (str ''synthesis-failed'') # []"
  by (simp add: dialogue_plan, code_simp, simp_all add: endThenError_def)

lemma dialogue_rejected_events:
  "concat (map (speakEvent (readyState dialogue))
            (take (Suc 1) (planLines (text_value (readyState dialogue)))))
     = [SynthSpeak (str ''Hello'') emmaVoice, SynthSpeak (str ''Ni hao'') yaoyaoVoice]"
  by code_simp

theorem speak_error_rejects_witness:
  "endThenError 1 = [Error (str ''synthesis-failed'')] \<and>
   speak False (Granted shortCapture) endThenError (readyState dialogue)
     = (Rejected, (readyState dialogue)\<lparr>errorMessage := SpeakFailed\<rparr>,
        [GetDisplayMedia, SynthSpeak (str ''Hello'') emmaVoice,
         SynthSpeak (str ''Ni hao'') yaoyaoVoice]) \<and>
   RecorderStop \<notin> set (snd (snd (speak False (Granted shortCapture) endThenError (readyState dialogue)))) \<and>
   length (spoken (snd (snd (speak False (Granted shortCapture) endThenError (readyState dialogue))))) = 2"
proof -
  have d: "cancelIfSpeaking False = []"
    by (simp add: cancelIfSpeaking_def)
  have two: "Suc 1 = 2"
    by simp
  note r = speak_error_rejects [OF dialogue_ready dialogue_rejected_hyps, of False shortCapture]
  from r have a: "speak False (Granted shortCapture) endThenError (readyState dialogue)
     = (Rejected, (readyState dialogue)\<lparr>errorMessage := SpeakFailed\<rparr>,
        [GetDisplayMedia, SynthSpeak (str ''Hello'') emmaVoice,
         SynthSpeak (str ''Ni hao'') yaoyaoVoice])"
    unfolding dialogue_rejected_events d append_Nil by (rule conjunct1)
  from r have b: "RecorderStop \<notin> set (snd (snd (speak False (Granted shortCapture) endThenError (readyState dialogue))))"
    by (elim conjE)
  from r have c: "length (spoken (snd (snd (speak False (Granted shortCapture) endThenError (readyState dialogue))))) = 2"
    unfolding two by (elim conjE)
  from dialogue_rejected_hyps(4) a b c show ?thesis
    by (intro conjI)
qed

text \<open>
  C6. In \<open>speak\<close> the capture request comes before every utterance, and an utterance is
  submitted only when the request was granted. When the request is refused no utterance
  is submitted and the recorder is not stopped; with a text and a catalog, the run
  returns with the capture-denied status right after the request.
\<close>

theorem speak_capture_first:
  "(spoken (snd (snd (speak speaking g host st))) \<noteq> [] \<longrightarrow>
      (\<exists>recorder. g = Granted recorder) \<and>
      (\<exists>post. snd (snd (speak speaking g host st))
                = cancelIfSpeaking speaking @ GetDisplayMedia # post)) \<and>
   (g = Denied \<longrightarrow>
      spoken (snd (snd (speak speaking g host st))) = [] \<and>
      RecorderStop \<notin> set (snd (snd (speak speaking g host st)))) \<and>
   (g = Denied \<and> text_value st \<noteq> [] \<and> voices st \<noteq> [] \<longrightarrow>
      speak speaking g host st
        = (Returned, st\<lparr>errorMessage := CaptureDenied\<rparr>,
           cancelIfSpeaking speaking @ [GetDisplayMedia])) \<and>
   (g = NoAnswer \<longrightarrow> spoken (snd (snd (speak speaking g host st))) = [])"
proof -
  obtain f st3 tr where loop:
    "speakLoop host 0 (planLines (text_value st))
       (st\<lparr>errorMessage := CapturePrompt, errorMessage := Recording\<rparr>) = (f, st3, tr)"
    by (cases "speakLoop host 0 (planLines (text_value st))
       (st\<lparr>errorMessage := CapturePrompt, errorMessage := Recording\<rparr>)") auto
  show ?thesis
  proof (cases "text_value st = [] \<or> voices st = []")
    case True
    then show ?thesis
      by (auto simp: speak_def cancelIfSpeaking_def)
  next
    case False
    show ?thesis
    proof (cases g)
      case (Granted recorder)
      with False loop show ?thesis
        by (auto simp: speak_def stop_eq Let_def)
    next
      case Denied
      with False show ?thesis
        by (auto simp: speak_def cancelIfSpeaking_def)
    next
      case NoAnswer
      with False show ?thesis
        by (auto simp: speak_def)
    qed
  qed
qed

theorem speak_capture_first_witness:
  "speak False Denied alwaysEnd (readyState dialogue)
     = (Returned, (readyState dialogue)\<lparr>errorMessage := CaptureDenied\<rparr>, [GetDisplayMedia]) \<and>
   spoken (snd (snd (speak False Denied alwaysEnd (readyState dialogue)))) = [] \<and>
   spoken (snd (snd (speak True (Granted shortCapture) endThenError (readyState dialogue)))) \<noteq> [] \<and>
   (\<exists>post. snd (snd (speak True (Granted shortCapture) endThenError (readyState dialogue)))
            = SynthCancel # GetDisplayMedia # post)"
proof -
  have d: "cancelIfSpeaking True = [SynthCancel]" "cancelIfSpeaking False = []"
    by (simp_all add: cancelIfSpeaking_def)
  have run: "speak True (Granted shortCapture) endThenError (readyState dialogue)
     = (Rejected, (readyState dialogue)\<lparr>errorMessage := SpeakFailed\<rparr>,
        [SynthCancel, GetDisplayMedia, SynthSpeak (str ''Hello'') emmaVoice,
         SynthSpeak (str ''Ni hao'') yaoyaoVoice])"
    using speak_rejected_run [OF dialogue_ready dialogue_rejected_hyps, of True shortCapture]
    unfolding dialogue_rejected_events d by simp
  then have sp: "spoken (snd (snd (speak True (Granted shortCapture) endThenError (readyState dialogue)))) \<noteq> []"
    by simp
  note r1 = speak_capture_first [of False Denied alwaysEnd "readyState dialogue", unfolded d append_Nil]
  note r2 = speak_capture_first [of True "Granted shortCapture" endThenError "readyState dialogue", unfolded d]
  from r1 dialogue_ready have a: "speak False Denied alwaysEnd (readyState dialogue)
     = (Returned, (readyState dialogue)\<lparr>errorMessage := CaptureDenied\<rparr>, [GetDisplayMedia])"
    by blast
  from r1 have b: "spoken (snd (snd (speak False Denied alwaysEnd (readyState dialogue)))) = []"
    by blast
  from r2 sp have c: "\<exists>post. snd (snd (speak True (Granted shortCapture) endThenError (readyState dialogue)))
            = SynthCancel # GetDisplayMedia # post"
    by (simp only: append_Cons append_Nil) blast
  from a b sp c show ?thesis
    by (intro conjI)
qed

end
